theory Spec2Isabelle
  imports Complex_Main "HOL-Library.Char_ord" "HOL-Library.List_Lexorder"
begin

section \<open>Strings and character classes\<close>

text \<open>
  A JavaScript string is modelled as a \<^typ>\<open>string\<close>: a list of characters, each character
  standing for the code unit with the same number (U+0000 to U+00FF). This range is closed
  under every operation used below: \<open>toLowerCase\<close> maps the upper-case letters of the range
  to lower-case letters of the range, and the regular expressions only look at one code
  unit at a time.
\<close>

definition code :: "char \<Rightarrow> nat" where
  "code c = of_char c"

text \<open>\<open>\w\<close> of a JavaScript regular expression (no \<open>u\<close>/\<open>i\<close> flag): \<open>[A-Za-z0-9_]\<close>.\<close>

definition is_upper :: "char \<Rightarrow> bool" where
  "is_upper c = (65 \<le> code c \<and> code c \<le> 90)"

definition is_lower :: "char \<Rightarrow> bool" where
  "is_lower c = (97 \<le> code c \<and> code c \<le> 122)"

definition is_digit :: "char \<Rightarrow> bool" where
  "is_digit c = (48 \<le> code c \<and> code c \<le> 57)"

definition is_word :: "char \<Rightarrow> bool" where
  "is_word c = (is_upper c \<or> is_lower c \<or> is_digit c \<or> c = CHR ''_'')"

text \<open>
  \<open>\s\<close> of a regular expression, which is also what \<open>String.prototype.trim\<close> strips:
  WhiteSpace and LineTerminator of ECMAScript. Below U+0100 these are TAB, LF, VT, FF, CR,
  SPACE and NO-BREAK SPACE (U+00A0).
\<close>

definition is_space :: "char \<Rightarrow> bool" where
  "is_space c = (code c \<in> {9, 10, 11, 12, 13, 32, 160})"

text \<open>
  \<open>String.prototype.toLowerCase\<close>: below U+0100 the characters with a lower-case mapping are
  A to Z and U+00C0 to U+00DE without the multiplication sign U+00D7; each maps to the
  character 32 places further.
\<close>

definition lower_char :: "char \<Rightarrow> char" where
  "lower_char c =
     (if is_upper c \<or> (192 \<le> code c \<and> code c \<le> 222 \<and> code c \<noteq> 215)
      then char_of (code c + 32) else c)"

definition toLowerCase :: "string \<Rightarrow> string" where
  "toLowerCase s = map lower_char s"

definition trim :: "string \<Rightarrow> string" where
  "trim s = rev (dropWhile is_space (rev (dropWhile is_space s)))"

section \<open>Slug generator (postModel.ts, createSlug)\<close>

text \<open>
  \<open>s.replace(/[C]/g, "")\<close> for a character class \<open>C\<close>: every single character in the class is
  a match and is replaced by the empty string. The class is given by its predicate.
\<close>

fun replace_class :: "(char \<Rightarrow> bool) \<Rightarrow> string \<Rightarrow> string" where
  "replace_class C [] = []"
| "replace_class C (c # cs) = (if C c then replace_class C cs else c # replace_class C cs)"

text \<open>
  \<open>s.replace(/[C]+/g, r)\<close>: the scan goes from left to right; where the class matches, the
  greedy \<open>+\<close> takes the longest run of class characters, the run is replaced by \<open>r\<close>, and the
  scan goes on after the run.
\<close>

function replace_plus :: "(char \<Rightarrow> bool) \<Rightarrow> string \<Rightarrow> string \<Rightarrow> string" where
  "replace_plus C r [] = []"
| "replace_plus C r (c # cs) =
     (if C c then r @ replace_plus C r (dropWhile C cs) else c # replace_plus C r cs)"
  by pat_completeness auto
termination
  by (relation "measure (\<lambda>(C, r, s). length s)")
    (auto simp: less_Suc_eq_le length_dropWhile_le)

text \<open>The class \<open>[^\w\s-]\<close> of the first replacement.\<close>

definition special :: "char \<Rightarrow> bool" where
  "special c = (\<not> (is_word c \<or> is_space c \<or> c = CHR ''-''))"

definition is_hyphen :: "char \<Rightarrow> bool" where
  "is_hyphen c = (c = CHR ''-'')"

definition createSlug :: "string \<Rightarrow> string" where
  "createSlug title =
     replace_plus is_hyphen ''-''
       (replace_plus is_space ''-''
         (replace_class special
           (trim (toLowerCase title))))"

subsection \<open>The algorithm in the words of the specification\<close>

text \<open>
  The specification describes the slug in five steps: lowercase; trim; remove every character
  that is not a letter, digit, underscore, hyphen or whitespace; replace each run of
  whitespace with a single hyphen; collapse each run of hyphens into a single hyphen.

  A letter is a letter of any alphabet. Below U+0100 the letters are A to Z, a to z, the
  ordinal indicators U+00AA and U+00BA, the micro sign U+00B5, and U+00C0 to U+00FF without
  the multiplication sign U+00D7 and the division sign U+00F7. The letters of the basic
  Latin alphabet are A to Z and a to z only.
\<close>

definition is_letter :: "char \<Rightarrow> bool" where
  "is_letter c =
     (is_upper c \<or> is_lower c \<or> code c \<in> {170, 181, 186}
      \<or> (192 \<le> code c \<and> code c \<noteq> 215 \<and> code c \<noteq> 247))"

definition is_basic_letter :: "char \<Rightarrow> bool" where
  "is_basic_letter c = (is_upper c \<or> is_lower c)"

text \<open>
  Trimming takes the whitespace off both ends: the leading whitespace is dropped, and a
  whitespace character is dropped when nothing but whitespace follows it.
\<close>

fun drop_trailing :: "(char \<Rightarrow> bool) \<Rightarrow> string \<Rightarrow> string" where
  "drop_trailing C [] = []"
| "drop_trailing C (c # cs) =
     (if C c \<and> drop_trailing C cs = [] then [] else c # drop_trailing C cs)"

definition trimmed :: "string \<Rightarrow> string" where
  "trimmed s = drop_trailing is_space (dropWhile is_space s)"

text \<open>
  A run is a maximal block of adjacent characters of the class: \<open>squeeze_runs\<close> drops a
  class character that is followed by another one and turns the last one of the run into
  the replacement character.
\<close>

fun squeeze_runs :: "(char \<Rightarrow> bool) \<Rightarrow> char \<Rightarrow> string \<Rightarrow> string" where
  "squeeze_runs C h [] = []"
| "squeeze_runs C h [c] = [if C c then h else c]"
| "squeeze_runs C h (c # d # cs) =
     (if C c \<and> C d then squeeze_runs C h (d # cs)
      else (if C c then h else c) # squeeze_runs C h (d # cs))"

text \<open>The five steps, for a given notion of letter.\<close>

definition slug_keep :: "(char \<Rightarrow> bool) \<Rightarrow> char \<Rightarrow> bool" where
  "slug_keep letter c =
     (letter c \<or> is_digit c \<or> c = CHR ''_'' \<or> c = CHR ''-'' \<or> is_space c)"

definition slug_steps :: "(char \<Rightarrow> bool) \<Rightarrow> string \<Rightarrow> string" where
  "slug_steps letter title =
     squeeze_runs is_hyphen (CHR ''-'')
       (squeeze_runs is_space (CHR ''-'')
         (filter (slug_keep letter)
           (trimmed (map lower_char title))))"

text \<open>
  The slug as the specification words it, with every letter kept, and the slug with the
  letters of the basic Latin alphabet only.
\<close>

definition slug_spec :: "string \<Rightarrow> string" where
  "slug_spec title = slug_steps is_letter title"

definition slug_basic :: "string \<Rightarrow> string" where
  "slug_basic title = slug_steps is_basic_letter title"

section \<open>Numbers from strings\<close>

text \<open>
  \<open>parseInt(string)\<close> with no radix, as ECMAScript defines it: leading whitespace is skipped,
  one sign is read, a prefix \<open>0x\<close> or \<open>0X\<close> selects radix 16, and the longest prefix of digits
  of the radix is the value. With no digit the result is \<open>NaN\<close>, here \<open>None\<close>. Numbers are
  exact integers (a double is exact below \<open>2^53\<close>).
\<close>

definition digit_val :: "char \<Rightarrow> nat option" where
  "digit_val c =
     (if is_digit c then Some (code c - 48)
      else if is_lower c then Some (code c - 87)
      else if is_upper c then Some (code c - 55)
      else None)"

definition is_radix_digit :: "nat \<Rightarrow> char \<Rightarrow> bool" where
  "is_radix_digit R c = (case digit_val c of None \<Rightarrow> False | Some d \<Rightarrow> d < R)"

definition digits_value :: "nat \<Rightarrow> string \<Rightarrow> nat" where
  "digits_value R ds =
     foldl (\<lambda>acc c. case digit_val c of None \<Rightarrow> acc | Some d \<Rightarrow> acc * R + d) 0 ds"

definition parseInt :: "string \<Rightarrow> int option" where
  "parseInt s =
     (let t = dropWhile is_space s;
          neg = (case t of [] \<Rightarrow> False | c # _ \<Rightarrow> c = CHR ''-'');
          u = (case t of [] \<Rightarrow> t | c # r \<Rightarrow> if c = CHR ''-'' \<or> c = CHR ''+'' then r else t);
          hex = (case u of a # b # _ \<Rightarrow> a = CHR ''0'' \<and> (b = CHR ''x'' \<or> b = CHR ''X'') | _ \<Rightarrow> False);
          R = (if hex then 16 else 10);
          ds = takeWhile (is_radix_digit R) (if hex then drop 2 u else u)
      in if ds = [] then None
         else Some ((if neg then - 1 else 1) * int (digits_value R ds)))"

text \<open>
  An identifier reaches a repository as \<open>number | string\<close> and goes through
  \<open>parseInt(id.toString())\<close>. A number is an integer here, and printing and reading an
  integer gives it back; a string is read by \<open>parseInt\<close>.
\<close>

datatype js_id = IdNum int | IdStr string

fun parse_id :: "js_id \<Rightarrow> int option" where
  "parse_id (IdNum n) = Some n"
| "parse_id (IdStr s) = parseInt s"

text \<open>
  \<open>x || null\<close> for an optional number and an optional string: \<open>undefined\<close>, \<open>null\<close>, \<open>0\<close>
  and the empty string are falsy and become \<open>null\<close>.
\<close>

fun num_or_null :: "int option \<Rightarrow> int option" where
  "num_or_null None = None"
| "num_or_null (Some n) = (if n = 0 then None else Some n)"

fun str_or_null :: "string option \<Rightarrow> string option" where
  "str_or_null None = None"
| "str_or_null (Some s) = (if s = [] then None else Some s)"

section \<open>The content store (config/database.ts)\<close>

text \<open>
  The two tables of \<open>initializeDatabase\<close>. A column that may be \<open>NULL\<close> is an option. The
  rows of a table are kept in rowid order, the order of a table scan.
\<close>

record author =
  a_id :: int
  a_name :: string
  a_email :: "string option"
  a_bio :: "string option"
  a_created_at :: string
  a_updated_at :: string

record post_row =
  p_id :: int
  p_title :: string
  p_slug :: string
  p_excerpt :: string
  p_content :: string
  p_author_id :: "int option"
  p_created_at :: string
  p_updated_at :: string

text \<open>
  The state of the connection: the two tables, the \<open>AUTOINCREMENT\<close> counters of
  \<open>sqlite_sequence\<close>, and a schedule of store-level faults. Each statement the code runs
  takes the head of the schedule; \<open>True\<close> makes the statement raise an I/O error (a locked
  or unreadable file, a closed connection), whatever the data. An empty schedule means no
  fault.
\<close>

record store =
  authors :: "author list"
  posts :: "post_row list"
  authors_seq :: int
  posts_seq :: int
  faults :: "bool list"

definition empty_store :: store where
  "empty_store = \<lparr>authors = [], posts = [], authors_seq = 0, posts_seq = 0, faults = []\<rparr>"

datatype sqlite_error =
  SQLITE_CONSTRAINT_UNIQUE | SQLITE_CONSTRAINT_FOREIGNKEY | SQLITE_IOERR

datatype exn = SqliteError sqlite_error

definition next_fault :: "store \<Rightarrow> bool \<times> store" where
  "next_fault st =
     (case faults st of [] \<Rightarrow> (False, st) | b # bs \<Rightarrow> (b, st\<lparr>faults := bs\<rparr>))"

text \<open>A \<open>SELECT\<close> (\<open>prepare\<close> then \<open>all\<close> or \<open>get\<close>): it raises on a fault, else it reads.\<close>

definition run_query :: "(store \<Rightarrow> 'a) \<Rightarrow> store \<Rightarrow> (exn + 'a) \<times> store" where
  "run_query q st =
     (case next_fault st of
        (True, st') \<Rightarrow> (Inl (SqliteError SQLITE_IOERR), st')
      | (False, st') \<Rightarrow> (Inr (q st'), st'))"

text \<open>
  An \<open>INSERT\<close>, \<open>UPDATE\<close> or \<open>DELETE\<close> (\<open>prepare\<close> then \<open>run\<close>): it raises on a fault or on a
  constraint violation and then leaves the tables as they were; else it changes the tables
  and returns the \<open>lastInsertRowid\<close> or the \<open>changes\<close> of the \<open>info\<close> object.
\<close>

definition run_write ::
  "(store \<Rightarrow> sqlite_error + 'a \<times> store) \<Rightarrow> store \<Rightarrow> (exn + 'a) \<times> store" where
  "run_write w st =
     (case next_fault st of
        (True, st') \<Rightarrow> (Inl (SqliteError SQLITE_IOERR), st')
      | (False, st') \<Rightarrow>
          (case w st' of
             Inl e \<Rightarrow> (Inl (SqliteError e), st')
           | Inr (info, st'') \<Rightarrow> (Inr info, st'')))"

text \<open>
  \<open>INTEGER PRIMARY KEY AUTOINCREMENT\<close>: the new rowid is one more than the largest rowid the
  table ever had.
\<close>

definition next_rowid :: "int \<Rightarrow> int list \<Rightarrow> int" where
  "next_rowid seq ids = fold max ids seq + 1"

text \<open>\<open>FOREIGN KEY (author_id) REFERENCES authors(id)\<close>, with \<open>foreign_keys = ON\<close>.\<close>

definition fk_ok :: "store \<Rightarrow> int option \<Rightarrow> bool" where
  "fk_ok st author_id =
     (case author_id of None \<Rightarrow> True | Some a \<Rightarrow> a \<in> set (map a_id (authors st)))"

text \<open>\<open>WHERE id = ?\<close>: a bound \<open>NaN\<close> is \<open>NULL\<close> and equals no rowid.\<close>

definition id_is :: "int option \<Rightarrow> int \<Rightarrow> bool" where
  "id_is param rowid = (param = Some rowid)"

subsection \<open>Statements on posts\<close>

text \<open>
  \<open>INSERT INTO posts (title, slug, excerpt, content, author_id) VALUES (?, ?, ?, ?, ?)\<close>;
  \<open>slug\<close> is \<open>UNIQUE\<close>, both timestamps default to \<open>datetime('now')\<close>.
\<close>

definition insert_post ::
  "string \<Rightarrow> string \<Rightarrow> string \<Rightarrow> string \<Rightarrow> string \<Rightarrow> int option \<Rightarrow> store
     \<Rightarrow> sqlite_error + int \<times> store" where
  "insert_post now title slug excerpt content author_id st =
     (if slug \<in> set (map p_slug (posts st)) then Inl SQLITE_CONSTRAINT_UNIQUE
      else if \<not> fk_ok st author_id then Inl SQLITE_CONSTRAINT_FOREIGNKEY
      else
        let rowid = next_rowid (posts_seq st) (map p_id (posts st));
            row = \<lparr>p_id = rowid, p_title = title, p_slug = slug, p_excerpt = excerpt,
                   p_content = content, p_author_id = author_id,
                   p_created_at = now, p_updated_at = now\<rparr>
        in Inr (rowid, st\<lparr>posts := posts st @ [row], posts_seq := rowid\<rparr>))"

text \<open>
  \<open>UPDATE posts SET title = ?, slug = ?, excerpt = ?, content = ?, author_id = ?,
  updated_at = datetime('now') WHERE id = ?\<close>. With no matching row nothing is checked and
  \<open>changes\<close> is 0.
\<close>

definition update_post ::
  "string \<Rightarrow> string \<Rightarrow> string \<Rightarrow> string \<Rightarrow> string \<Rightarrow> int option \<Rightarrow> int option \<Rightarrow> store
     \<Rightarrow> sqlite_error + nat \<times> store" where
  "update_post now title slug excerpt content author_id param st =
     (let hit = (\<lambda>r. id_is param (p_id r));
          n = length (filter hit (posts st))
      in if n = 0 then Inr (0, st)
         else if 1 < n \<or> slug \<in> set (map p_slug (filter (\<lambda>r. \<not> hit r) (posts st)))
           then Inl SQLITE_CONSTRAINT_UNIQUE
         else if \<not> fk_ok st author_id then Inl SQLITE_CONSTRAINT_FOREIGNKEY
         else Inr (n, st\<lparr>posts :=
                map (\<lambda>r. if hit r
                          then r\<lparr>p_title := title, p_slug := slug, p_excerpt := excerpt,
                                 p_content := content, p_author_id := author_id,
                                 p_updated_at := now\<rparr>
                          else r) (posts st)\<rparr>))"

text \<open>\<open>DELETE FROM posts WHERE id = ?\<close>.\<close>

definition delete_post :: "int option \<Rightarrow> store \<Rightarrow> sqlite_error + nat \<times> store" where
  "delete_post param st =
     (let hit = (\<lambda>r. id_is param (p_id r))
      in Inr (length (filter hit (posts st)),
              st\<lparr>posts := filter (\<lambda>r. \<not> hit r) (posts st)\<rparr>))"

subsection \<open>Statements on authors\<close>

text \<open>
  \<open>INSERT INTO authors (name, email, bio) VALUES (?, ?, ?)\<close>; \<open>email\<close> is \<open>UNIQUE\<close>, and
  \<open>NULL\<close> never collides with anything.
\<close>

definition email_taken :: "string option \<Rightarrow> author list \<Rightarrow> bool" where
  "email_taken email rows = (email \<noteq> None \<and> email \<in> set (map a_email rows))"

definition insert_author ::
  "string \<Rightarrow> string \<Rightarrow> string option \<Rightarrow> string option \<Rightarrow> store
     \<Rightarrow> sqlite_error + int \<times> store" where
  "insert_author now name email bio st =
     (if email_taken email (authors st) then Inl SQLITE_CONSTRAINT_UNIQUE
      else
        let rowid = next_rowid (authors_seq st) (map a_id (authors st));
            row = \<lparr>a_id = rowid, a_name = name, a_email = email, a_bio = bio,
                   a_created_at = now, a_updated_at = now\<rparr>
        in Inr (rowid, st\<lparr>authors := authors st @ [row], authors_seq := rowid\<rparr>))"

text \<open>
  \<open>UPDATE authors SET name = ?, email = ?, bio = ?, updated_at = datetime('now')
  WHERE id = ?\<close>.
\<close>

definition update_author ::
  "string \<Rightarrow> string \<Rightarrow> string option \<Rightarrow> string option \<Rightarrow> int option \<Rightarrow> store
     \<Rightarrow> sqlite_error + nat \<times> store" where
  "update_author now name email bio param st =
     (let hit = (\<lambda>r. id_is param (a_id r));
          n = length (filter hit (authors st))
      in if n = 0 then Inr (0, st)
         else if (1 < n \<and> email \<noteq> None)
                 \<or> email_taken email (filter (\<lambda>r. \<not> hit r) (authors st))
           then Inl SQLITE_CONSTRAINT_UNIQUE
         else Inr (n, st\<lparr>authors :=
                map (\<lambda>r. if hit r
                          then r\<lparr>a_name := name, a_email := email, a_bio := bio,
                                 a_updated_at := now\<rparr>
                          else r) (authors st)\<rparr>))"

text \<open>
  \<open>DELETE FROM authors WHERE id = ?\<close>. The posts table declares
  \<open>FOREIGN KEY (author_id) REFERENCES authors(id) ON DELETE SET NULL\<close> and the connection
  runs with \<open>foreign_keys = ON\<close>: each post that referenced a deleted author gets
  \<open>author_id = NULL\<close>. \<open>changes\<close> counts the deleted authors only.
\<close>

definition delete_author :: "int option \<Rightarrow> store \<Rightarrow> sqlite_error + nat \<times> store" where
  "delete_author param st =
     (let hit = (\<lambda>r. id_is param (a_id r));
          gone = map a_id (filter hit (authors st))
      in Inr (length gone,
              st\<lparr>authors := filter (\<lambda>r. \<not> hit r) (authors st),
                 posts := map (\<lambda>r. case p_author_id r of
                                      None \<Rightarrow> r
                                    | Some a \<Rightarrow> if a \<in> set gone then r\<lparr>p_author_id := None\<rparr> else r)
                            (posts st)\<rparr>))"

subsection \<open>Queries\<close>

text \<open>
  \<open>FROM posts p LEFT JOIN authors a ON p.author_id = a.id\<close>: a post with its author's
  columns, \<open>NULL\<close> when no author matches.
\<close>

record joined_row =
  row_post :: post_row
  author_name :: "string option"
  author_email :: "string option"
  author_bio :: "string option"
  author_created_at :: "string option"
  author_updated_at :: "string option"

definition join_author :: "post_row \<Rightarrow> author \<Rightarrow> joined_row" where
  "join_author p a =
     \<lparr>row_post = p, author_name = Some (a_name a), author_email = a_email a,
      author_bio = a_bio a, author_created_at = Some (a_created_at a),
      author_updated_at = Some (a_updated_at a)\<rparr>"

definition join_null :: "post_row \<Rightarrow> joined_row" where
  "join_null p =
     \<lparr>row_post = p, author_name = None, author_email = None, author_bio = None,
      author_created_at = None, author_updated_at = None\<rparr>"

definition left_join :: "author list \<Rightarrow> post_row \<Rightarrow> joined_row list" where
  "left_join as p =
     (case filter (\<lambda>a. p_author_id p = Some (a_id a)) as of
        [] \<Rightarrow> [join_null p]
      | ms \<Rightarrow> map (join_author p) ms)"

definition posts_join :: "store \<Rightarrow> joined_row list" where
  "posts_join st = concat (map (left_join (authors st)) (posts st))"

text \<open>
  \<open>ORDER BY\<close> on a text column compares the strings code unit by code unit. Rows with equal
  keys stay in scan order.
\<close>

definition order_by_asc :: "('a \<Rightarrow> string) \<Rightarrow> 'a list \<Rightarrow> 'a list" where
  "order_by_asc key rows = sort_key key rows"

definition order_by_desc :: "('a \<Rightarrow> string) \<Rightarrow> 'a list \<Rightarrow> 'a list" where
  "order_by_desc key rows = rev (sort_key key (rev rows))"

text \<open>
  \<open>x LIKE pattern\<close> of SQLite with no \<open>ESCAPE\<close>: \<open>%\<close> matches any sequence of characters,
  \<open>_\<close> matches any one character, every other pattern character matches itself, ASCII
  letters without regard to case. With \<open>x\<close> \<open>NULL\<close> the result is \<open>NULL\<close>.
\<close>

definition like_fold :: "char \<Rightarrow> char" where
  "like_fold c = (if is_upper c then char_of (code c + 32) else c)"

fun like :: "string \<Rightarrow> string \<Rightarrow> bool" where
  "like [] s = (s = [])"
| "like (p # ps) [] = (p = CHR ''%'' \<and> like ps [])"
| "like (p # ps) (c # cs) =
     (if p = CHR ''%'' then like ps (c # cs) \<or> like (p # ps) cs
      else (p = CHR ''_'' \<or> like_fold p = like_fold c) \<and> like ps cs)"

fun sql_like :: "string option \<Rightarrow> string \<Rightarrow> bool option" where
  "sql_like None pat = None"
| "sql_like (Some x) pat = Some (like pat x)"

text \<open>\<open>OR\<close> in three-valued logic; \<open>WHERE\<close> keeps the rows whose condition is true.\<close>

fun sql_or :: "bool option \<Rightarrow> bool option \<Rightarrow> bool option" where
  "sql_or (Some True) _ = Some True"
| "sql_or _ (Some True) = Some True"
| "sql_or (Some False) (Some False) = Some False"
| "sql_or _ _ = None"

definition sql_true :: "bool option \<Rightarrow> bool" where
  "sql_true v = (v = Some True)"

section \<open>Exceptions and \<open>try\<close>/\<open>catch\<close>\<close>

text \<open>
  A repository operation takes the store and returns the new store with either the value
  it returns (\<open>Inr\<close>) or the exception that leaves it (\<open>Inl\<close>).
\<close>

definition and_then ::
  "(store \<Rightarrow> (exn + 'a) \<times> store) \<Rightarrow> ('a \<Rightarrow> store \<Rightarrow> (exn + 'b) \<times> store)
     \<Rightarrow> store \<Rightarrow> (exn + 'b) \<times> store" where
  "and_then m f st =
     (case m st of (Inl e, st') \<Rightarrow> (Inl e, st') | (Inr v, st') \<Rightarrow> f v st')"

definition give :: "'a \<Rightarrow> store \<Rightarrow> (exn + 'a) \<times> store" where
  "give v st = (Inr v, st)"

text \<open>\<open>try { body } catch (error) { console.error(...); return v; }\<close>\<close>

definition try_catch ::
  "(store \<Rightarrow> (exn + 'a) \<times> store) \<Rightarrow> (exn \<Rightarrow> 'a) \<Rightarrow> store \<Rightarrow> (exn + 'a) \<times> store" where
  "try_catch body handler st =
     (case body st of (Inl e, st') \<Rightarrow> (Inr (handler e), st') | (Inr v, st') \<Rightarrow> (Inr v, st'))"

section \<open>Post repository (models/postModel.ts)\<close>

text \<open>
  The \<open>sanitize-html\<close> package is outside the repository: the function and its default
  options are parameters.
\<close>

record sanitize_options =
  allowedTags :: "string list"
  allowedAttributes :: "string \<rightharpoonup> string list"

record sanitize_html =
  sanitizeHtml :: "string \<Rightarrow> sanitize_options \<Rightarrow> string"
  defaults :: sanitize_options

definition sanitizeOptions :: "sanitize_html \<Rightarrow> sanitize_options" where
  "sanitizeOptions lib =
     \<lparr>allowedTags = allowedTags (defaults lib) @ [''h1'', ''h2'', ''img''],
      allowedAttributes = (allowedAttributes (defaults lib))
        (''img'' \<mapsto> [''src'', ''alt'', ''title''],
         ''a'' \<mapsto> [''href'', ''target'', ''rel''])\<rparr>"

text \<open>The objects the repository returns and takes (types/Post.ts).\<close>

record post_author =
  au_id :: "int option"
  au_name :: string
  au_email :: "string option"
  au_bio :: "string option"
  au_created_at :: "string option"
  au_updated_at :: "string option"

record post =
  post_id :: int
  post_title :: string
  post_slug :: string
  post_excerpt :: string
  post_content :: string
  post_author_id :: "int option"
  post_createdAt :: string
  post_updatedAt :: string
  post_author :: "post_author option"

record post_input =
  in_title :: string
  in_excerpt :: string
  in_content :: string
  in_author_id :: "int option"

text \<open>
  \<open>mapRowToPost\<close>: the author object is spread into the post only when \<open>row.author_name\<close>
  is truthy, that is neither \<open>NULL\<close> nor the empty string.
\<close>

definition mapRowToPost :: "joined_row \<Rightarrow> post" where
  "mapRowToPost row =
     \<lparr>post_id = p_id (row_post row),
      post_title = p_title (row_post row),
      post_slug = p_slug (row_post row),
      post_excerpt = p_excerpt (row_post row),
      post_content = p_content (row_post row),
      post_author_id = p_author_id (row_post row),
      post_createdAt = p_created_at (row_post row),
      post_updatedAt = p_updated_at (row_post row),
      post_author =
        (case str_or_null (author_name row) of
           None \<Rightarrow> None
         | Some n \<Rightarrow>
             Some \<lparr>au_id = p_author_id (row_post row), au_name = n,
                   au_email = author_email row, au_bio = author_bio row,
                   au_created_at = author_created_at row,
                   au_updated_at = author_updated_at row\<rparr>)\<rparr>"

definition getAllPosts :: "store \<Rightarrow> (exn + post list) \<times> store" where
  "getAllPosts =
     run_query (\<lambda>st.
       map mapRowToPost (order_by_desc (\<lambda>r. p_created_at (row_post r)) (posts_join st)))"

text \<open>\<open>stmt.get\<close> gives the first row or \<open>undefined\<close>.\<close>

definition first_row :: "'a list \<Rightarrow> 'a option" where
  "first_row rows = (case rows of [] \<Rightarrow> None | r # _ \<Rightarrow> Some r)"

definition getPostById :: "js_id \<Rightarrow> store \<Rightarrow> (exn + post option) \<times> store" where
  "getPostById i =
     run_query (\<lambda>st.
       map_option mapRowToPost
         (first_row (filter (\<lambda>r. id_is (parse_id i) (p_id (row_post r))) (posts_join st))))"

definition getPostBySlug :: "string \<Rightarrow> store \<Rightarrow> (exn + post option) \<times> store" where
  "getPostBySlug slug =
     run_query (\<lambda>st.
       map_option mapRowToPost
         (first_row (filter (\<lambda>r. p_slug (row_post r) = slug) (posts_join st))))"

text \<open>
  \<open>createPost\<close>. \<open>now\<close> is what \<open>datetime('now')\<close> gives when the statement runs. The last
  line, \<open>getPostById(...) || null\<close>, turns \<open>undefined\<close> into \<open>null\<close>: both are \<open>None\<close>.
\<close>

definition createPost ::
  "sanitize_html \<Rightarrow> string \<Rightarrow> post_input \<Rightarrow> store \<Rightarrow> (exn + post option) \<times> store" where
  "createPost lib now postData =
     try_catch
       (let slug = createSlug (in_title postData);
            sanitizedContent = sanitizeHtml lib (in_content postData) (sanitizeOptions lib)
        in and_then
             (run_write (insert_post now (in_title postData) slug (in_excerpt postData)
                sanitizedContent (num_or_null (in_author_id postData))))
             (\<lambda>lastInsertRowid. getPostById (IdNum lastInsertRowid)))
       (\<lambda>error. None)"

definition updatePost ::
  "sanitize_html \<Rightarrow> string \<Rightarrow> js_id \<Rightarrow> post_input \<Rightarrow> store \<Rightarrow> (exn + post option) \<times> store" where
  "updatePost lib now i postData =
     try_catch
       (let slug = createSlug (in_title postData);
            sanitizedContent = sanitizeHtml lib (in_content postData) (sanitizeOptions lib)
        in and_then
             (run_write (update_post now (in_title postData) slug (in_excerpt postData)
                sanitizedContent (num_or_null (in_author_id postData)) (parse_id i)))
             (\<lambda>changes. if changes = 0 then give None else getPostById i))
       (\<lambda>error. None)"

definition deletePost :: "js_id \<Rightarrow> store \<Rightarrow> (exn + bool) \<times> store" where
  "deletePost i =
     try_catch
       (and_then (run_write (delete_post (parse_id i))) (\<lambda>changes. give (0 < changes)))
       (\<lambda>error. False)"

text \<open>
  \<open>searchPosts\<close>: the pattern is the query between two \<open>%\<close>, nothing in the query is
  escaped.
\<close>

definition searchPattern :: "string \<Rightarrow> string" where
  "searchPattern query = ''%'' @ query @ ''%''"

definition searchPosts :: "string \<Rightarrow> store \<Rightarrow> (exn + post list) \<times> store" where
  "searchPosts query =
     run_query (\<lambda>st.
       map mapRowToPost
         (order_by_desc (\<lambda>r. p_created_at (row_post r))
           (filter (\<lambda>r. sql_true
                      (sql_or (sql_like (Some (p_title (row_post r))) (searchPattern query))
                        (sql_or (sql_like (Some (p_excerpt (row_post r))) (searchPattern query))
                                (sql_like (Some (p_content (row_post r))) (searchPattern query)))))
              (posts_join st))))"

section \<open>Author repository (models/authorModel.ts)\<close>

record author_input =
  in_name :: string
  in_email :: "string option"
  in_bio :: "string option"

definition getAllAuthors :: "store \<Rightarrow> (exn + author list) \<times> store" where
  "getAllAuthors = run_query (\<lambda>st. order_by_asc a_name (authors st))"

definition getAuthorById :: "js_id \<Rightarrow> store \<Rightarrow> (exn + author option) \<times> store" where
  "getAuthorById i =
     run_query (\<lambda>st. first_row (filter (\<lambda>r. id_is (parse_id i) (a_id r)) (authors st)))"

definition createAuthor ::
  "string \<Rightarrow> author_input \<Rightarrow> store \<Rightarrow> (exn + author option) \<times> store" where
  "createAuthor now authorData =
     try_catch
       (and_then
          (run_write (insert_author now (in_name authorData)
             (str_or_null (in_email authorData)) (str_or_null (in_bio authorData))))
          (\<lambda>lastInsertRowid. getAuthorById (IdNum lastInsertRowid)))
       (\<lambda>error. None)"

definition updateAuthor ::
  "string \<Rightarrow> js_id \<Rightarrow> author_input \<Rightarrow> store \<Rightarrow> (exn + author option) \<times> store" where
  "updateAuthor now i authorData =
     try_catch
       (and_then
          (run_write (update_author now (in_name authorData)
             (str_or_null (in_email authorData)) (str_or_null (in_bio authorData))
             (parse_id i)))
          (\<lambda>changes. if changes = 0 then give None else getAuthorById i))
       (\<lambda>error. None)"

definition deleteAuthor :: "js_id \<Rightarrow> store \<Rightarrow> (exn + bool) \<times> store" where
  "deleteAuthor i =
     try_catch
       (and_then (run_write (delete_author (parse_id i))) (\<lambda>changes. give (0 < changes)))
       (\<lambda>error. False)"

definition searchAuthors :: "string \<Rightarrow> store \<Rightarrow> (exn + author list) \<times> store" where
  "searchAuthors query =
     run_query (\<lambda>st.
       order_by_asc a_name
         (filter (\<lambda>r. sql_true
                    (sql_or (sql_like (Some (a_name r)) (searchPattern query))
                            (sql_like (a_email r) (searchPattern query))))
            (authors st)))"

text \<open>
  \<open>getAuthorsWithPostCount\<close>: \<open>authors a LEFT JOIN posts p ON a.id = p.author_id
  GROUP BY a.id\<close> with \<open>COUNT(p.id)\<close>; \<open>a.id\<close> is the primary key, so each author is a
  group of its own.
\<close>

definition getAuthorsWithPostCount :: "store \<Rightarrow> (exn + (author \<times> nat) list) \<times> store" where
  "getAuthorsWithPostCount =
     run_query (\<lambda>st.
       order_by_asc (\<lambda>r. a_name (fst r))
         (map (\<lambda>a. (a, length (filter (\<lambda>p. p_author_id p = Some (a_id a)) (posts st))))
            (authors st)))"

section \<open>Session gate (middleware/auth.ts, controllers/authController.ts)\<close>

text \<open>
  The session data of types/Session.ts; each property is optional. What a handler does with
  the response is a value: it calls \<open>next()\<close>, redirects, or renders a view.
\<close>

record session =
  isAuthenticated :: "bool option"
  returnTo :: "string option"
  username :: "string option"

datatype reply = Next | Redirect string | RenderLogin "string option"

text \<open>
  \<open>requireAuth\<close>: \<open>originalUrl\<close> is the URL of the request. The session object always exists
  under \<open>express-session\<close>, so \<open>req.session && req.session.isAuthenticated\<close> is the flag.
\<close>

definition requireAuth :: "session \<Rightarrow> string \<Rightarrow> reply \<times> session" where
  "requireAuth sess originalUrl =
     (if isAuthenticated sess = Some True then (Next, sess)
      else (Redirect ''/login'', sess\<lparr>returnTo := Some originalUrl\<rparr>))"

definition showLogin :: "session \<Rightarrow> reply \<times> session" where
  "showLogin sess =
     (if isAuthenticated sess = Some True then (Redirect ''/admin/posts'', sess)
      else (RenderLogin None, sess))"

text \<open>
  \<open>handleLogin\<close>: \<open>password\<close> is the field of the request body and \<open>ADMIN_PASSWORD\<close> the
  variable of the environment; either may be \<open>undefined\<close>, and \<open>===\<close> compares them as they
  are. \<open>req.session.returnTo || "/admin/posts"\<close> takes the default when the property is
  absent or empty.
\<close>

definition handleLogin :: "string option \<Rightarrow> string option \<Rightarrow> session \<Rightarrow> reply \<times> session" where
  "handleLogin ADMIN_PASSWORD password sess =
     (if password = ADMIN_PASSWORD then
        (let sess1 = sess\<lparr>isAuthenticated := Some True\<rparr>;
             target = (case str_or_null (returnTo sess1) of
                         None \<Rightarrow> ''/admin/posts'' | Some u \<Rightarrow> u)
         in (Redirect target, sess1\<lparr>returnTo := None\<rparr>))
      else (RenderLogin (Some ''Invalid password. Please try again.''), sess))"

text \<open>An admin path: the routers with \<open>requireAuth\<close> are mounted at \<open>/admin\<close>.\<close>

definition admin_path :: "string \<Rightarrow> bool" where
  "admin_path url = (take 6 url = ''/admin'')"

section \<open>Listing handlers (controllers/adminController.ts, controllers/postController.ts)\<close>

text \<open>
  \<open>Array.prototype.slice(start, end)\<close>: a negative index counts from the end of the array,
  and both indices are clamped to the array.
\<close>

definition js_index :: "int \<Rightarrow> int \<Rightarrow> int" where
  "js_index len k = (if k < 0 then max (len + k) 0 else min k len)"

definition slice :: "'a list \<Rightarrow> int \<Rightarrow> int \<Rightarrow> 'a list" where
  "slice xs start stop =
     (let len = int (length xs); k = js_index len start; final = js_index len stop
      in take (nat (final - k)) (drop (nat k) xs))"

text \<open>\<open>Math.ceil(a / b)\<close> for integers with \<open>b\<close> positive.\<close>

definition ceil_div :: "int \<Rightarrow> int \<Rightarrow> int" where
  "ceil_div a b = - ((- a) div b)"

text \<open>\<open>parseInt(req.query.page) || 1\<close>: \<open>NaN\<close> and \<open>0\<close> are falsy; an absent parameter is \<open>NaN\<close>.\<close>

definition page_of :: "string option \<Rightarrow> int" where
  "page_of param =
     (case (case param of None \<Rightarrow> None | Some s \<Rightarrow> parseInt s) of
        None \<Rightarrow> 1
      | Some n \<Rightarrow> if n = 0 then 1 else n)"

record listing =
  shown :: "post list"
  searchQuery :: "string option"
  currentPage :: int
  totalPages :: int
  hasPrevious :: bool
  hasNext :: bool

datatype response = Render string listing | RenderError nat string

text \<open>
  \<open>index\<close> of the admin controller, \<open>GET /admin/posts\<close>, with the \<open>search\<close> and \<open>page\<close>
  parameters of the query string.
\<close>

definition admin_index :: "string option \<Rightarrow> string option \<Rightarrow> store \<Rightarrow> response \<times> store" where
  "admin_index search page_param st =
     (let query = (case str_or_null search of None \<Rightarrow> [] | Some q \<Rightarrow> q);
          page = page_of page_param;
          limit = 10
      in case (if query \<noteq> [] then searchPosts query st else getAllPosts st) of
           (Inl error, st') \<Rightarrow> (RenderError 500 ''Error loading posts'', st')
         | (Inr allPosts, st') \<Rightarrow>
             (let totalPosts = int (length allPosts);
                  total = ceil_div totalPosts limit;
                  offset = (page - 1) * limit
              in (Render ''admin/posts/index.njk''
                    \<lparr>shown = slice allPosts offset (offset + limit),
                     searchQuery = Some query,
                     currentPage = page,
                     totalPages = total,
                     hasPrevious = (1 < page),
                     hasNext = (page < total)\<rparr>, st')))"

text \<open>\<open>index\<close> of the post controller, \<open>GET /posts\<close>, with the \<open>page\<close> parameter.\<close>

definition public_index :: "string option \<Rightarrow> store \<Rightarrow> response \<times> store" where
  "public_index page_param st =
     (let page = page_of page_param;
          limit = 6
      in case getAllPosts st of
           (Inl error, st') \<Rightarrow> (RenderError 500 ''Error loading blog posts'', st')
         | (Inr allPosts, st') \<Rightarrow>
             (let totalPosts = int (length allPosts);
                  total = ceil_div totalPosts limit;
                  offset = (page - 1) * limit
              in (Render ''posts/index.njk''
                    \<lparr>shown = slice allPosts offset (offset + limit),
                     searchQuery = None,
                     currentPage = page,
                     totalPages = total,
                     hasPrevious = (1 < page),
                     hasNext = (page < total)\<rparr>, st')))"

section \<open>The listing in the words of the specification\<close>

text \<open>
  The records of a sequence whose index lies in \<open>[lo, hi)\<close>, and the page the specification
  describes for \<open>P\<close> records, page size \<open>L\<close> and page \<open>k\<close>: the records \<open>[(k-1)L, kL)\<close>,
  \<open>ceil(P/L)\<close> pages, a previous page iff \<open>k > 1\<close> and a next page iff \<open>k < ceil(P/L)\<close>.
\<close>

definition index_range :: "'a list \<Rightarrow> int \<Rightarrow> int \<Rightarrow> 'a list" where
  "index_range xs lo hi = nths xs {i. lo \<le> int i \<and> int i < hi}"

definition page_count :: "nat \<Rightarrow> int \<Rightarrow> int" where
  "page_count P L = \<lceil>real P / real_of_int L\<rceil>"

definition page_view :: "int \<Rightarrow> string option \<Rightarrow> post list \<Rightarrow> int \<Rightarrow> listing" where
  "page_view L q records k =
     \<lparr>shown = index_range records ((k - 1) * L) (k * L),
      searchQuery = q,
      currentPage = k,
      totalPages = page_count (length records) L,
      hasPrevious = (1 < k),
      hasNext = (k < page_count (length records) L)\<rparr>"

text \<open>\<open>s\<close> contains \<open>q\<close> as a literal substring.\<close>

fun has_substring :: "string \<Rightarrow> string \<Rightarrow> bool" where
  "has_substring q [] = (q = [])"
| "has_substring q (c # cs) = (take (length q) (c # cs) = q \<or> has_substring q cs)"

section \<open>Example data\<close>

text \<open>
  A stand-in for the sanitizer, which removes every tag (the text from a \<open><\<close> to the next
  \<open>>\<close>), and a store with two authors and two posts.
\<close>

fun strip_tags :: "bool \<Rightarrow> string \<Rightarrow> string" where
  "strip_tags inside [] = []"
| "strip_tags inside (c # cs) =
     (if c = CHR ''<'' then strip_tags True cs
      else if inside then strip_tags (c \<noteq> CHR ''>'') cs
      else c # strip_tags False cs)"

definition plain_text :: sanitize_html where
  "plain_text =
     \<lparr>sanitizeHtml = (\<lambda>dirty options. strip_tags False dirty),
      defaults = \<lparr>allowedTags = [''p'', ''a''], allowedAttributes = [''a'' \<mapsto> [''href'']]\<rparr>\<rparr>"

definition ada :: author where
  "ada = \<lparr>a_id = 1, a_name = ''Ada'', a_email = None, a_bio = None,
          a_created_at = ''2024-01-01 09:00:00'', a_updated_at = ''2024-01-01 09:00:00''\<rparr>"

definition bob :: author where
  "bob = \<lparr>a_id = 2, a_name = ''Bob'', a_email = Some ''bob@example.org'', a_bio = None,
          a_created_at = ''2024-01-02 09:00:00'', a_updated_at = ''2024-01-02 09:00:00''\<rparr>"

definition hello_row :: post_row where
  "hello_row = \<lparr>p_id = 1, p_title = ''Hello World'', p_slug = ''hello-world'',
          p_excerpt = ''First'', p_content = ''Hi there'', p_author_id = Some 1,
          p_created_at = ''2024-02-01 10:00:00'', p_updated_at = ''2024-02-01 10:00:00''\<rparr>"

definition alphabet_row :: post_row where
  "alphabet_row = \<lparr>p_id = 2, p_title = ''Alphabet'', p_slug = ''alphabet'',
          p_excerpt = ''Letters'', p_content = ''xyz'', p_author_id = None,
          p_created_at = ''2024-02-02 10:00:00'', p_updated_at = ''2024-02-02 10:00:00''\<rparr>"

definition blog :: store where
  "blog = \<lparr>authors = [ada, bob], posts = [hello_row, alphabet_row],
           authors_seq = 2, posts_seq = 2, faults = []\<rparr>"

definition hello_post :: post where
  "hello_post = mapRowToPost (join_author hello_row ada)"

definition alphabet_post :: post where
  "alphabet_post = mapRowToPost (join_null alphabet_row)"

definition draft :: post_input where
  "draft = \<lparr>in_title = ''My First Post!'', in_excerpt = ''Intro'',
            in_content = ''<b>Hi</b><script>x</script>'', in_author_id = Some 1\<rparr>"

definition moment :: string where
  "moment = ''2024-03-01 08:00:00''"

text \<open>The row the draft becomes, with its rowid and its creation timestamp.\<close>

definition draft_row :: "int \<Rightarrow> string \<Rightarrow> post_row" where
  "draft_row rowid created =
     \<lparr>p_id = rowid, p_title = ''My First Post!'', p_slug = ''my-first-post'',
      p_excerpt = ''Intro'', p_content = ''Hix'', p_author_id = Some 1,
      p_created_at = created, p_updated_at = moment\<rparr>"

definition draft_post :: "int \<Rightarrow> string \<Rightarrow> post" where
  "draft_post rowid created = mapRowToPost (join_author (draft_row rowid created) ada)"

definition nameless :: author_input where
  "nameless = \<lparr>in_name = ''Cy'', in_email = Some [], in_bio = None\<rparr>"

definition cy :: author where
  "cy = \<lparr>a_id = 3, a_name = ''Cy'', a_email = None, a_bio = None,
         a_created_at = moment, a_updated_at = moment\<rparr>"

definition visitor :: session where
  "visitor = \<lparr>isAuthenticated = None, returnTo = None, username = None\<rparr>"

section \<open>Properties of the slug generator\<close>

lemma replace_class_filter: "replace_class C s = filter (\<lambda>c. \<not> C c) s"
  by (induction s) simp_all

lemma squeeze_runs_in_run:
  "C c \<Longrightarrow> squeeze_runs C h (c # cs) = h # squeeze_runs C h (dropWhile C cs)"
proof (induction cs arbitrary: c)
  case Nil
  then show ?case by simp
next
  case (Cons d ds)
  show ?case
  proof (cases "C d")
    case True
    with Cons show ?thesis by simp
  next
    case False
    with Cons.prems show ?thesis by simp
  qed
qed

lemma squeeze_runs_outside:
  "\<not> C c \<Longrightarrow> squeeze_runs C h (c # cs) = c # squeeze_runs C h cs"
  by (cases cs) simp_all

lemma replace_plus_squeeze: "replace_plus C [h] s = squeeze_runs C h s"
proof (induction C "[h]" s rule: replace_plus.induct)
  case (1 C)
  then show ?case by simp
next
  case (2 C c cs)
  then show ?case
    by (simp add: squeeze_runs_in_run squeeze_runs_outside)
qed

lemma special_keep: "(\<not> special c) = slug_keep is_basic_letter c"
  by (auto simp: special_def slug_keep_def is_word_def is_basic_letter_def)

lemma drop_trailing_empty: "drop_trailing C s = [] \<longleftrightarrow> (\<forall>c \<in> set s. C c)"
  by (induction s) auto

lemma drop_trailing_rev: "rev (dropWhile C (rev s)) = drop_trailing C s"
proof (induction s)
  case Nil
  then show ?case by simp
next
  case (Cons c cs)
  show ?case
  proof (cases "\<forall>x \<in> set cs. C x")
    case True
    then have "dropWhile C (rev cs @ [c]) = dropWhile C [c]"
      by (intro dropWhile_append2) simp
    moreover from True have "drop_trailing C cs = []"
      by (simp add: drop_trailing_empty)
    ultimately show ?thesis
      by simp
  next
    case False
    then obtain x where "x \<in> set (rev cs)" and "\<not> C x"
      by auto
    then have "dropWhile C (rev cs @ [c]) = dropWhile C (rev cs) @ [c]"
      by (rule dropWhile_append1)
    with False Cons.IH show ?thesis
      by (simp add: drop_trailing_empty)
  qed
qed

lemma trim_trimmed: "trim s = trimmed s"
  by (simp add: trim_def trimmed_def drop_trailing_rev)

lemma createSlug_slug_basic: "createSlug t = slug_basic t"
  by (simp add: createSlug_def slug_basic_def slug_steps_def toLowerCase_def
      replace_class_filter replace_plus_squeeze special_keep trim_trimmed)

text \<open>Where every character of the title is below U+0080, the two notions of letter agree.\<close>

lemma lower_char_ascii: "code c < 128 \<Longrightarrow> code (lower_char c) < 128"
  by (auto simp: lower_char_def is_upper_def code_def)

lemma letters_agree_ascii: "code c < 128 \<Longrightarrow> is_letter c = is_basic_letter c"
  by (auto simp: is_letter_def is_basic_letter_def)

lemma trimmed_subset: "set (trimmed s) \<subseteq> set s"
proof -
  have "set (trim s) \<subseteq> set (dropWhile is_space s)"
    unfolding trim_def using set_dropWhileD [of _ is_space "rev (dropWhile is_space s)"]
    by auto
  also have "\<dots> \<subseteq> set s"
    using set_dropWhileD [of _ is_space s] by auto
  finally show ?thesis
    by (simp add: trim_trimmed)
qed

lemma slug_spec_ascii:
  assumes "\<forall>c \<in> set t. code c < 128"
  shows "slug_spec t = slug_basic t"
proof -
  have "filter (slug_keep is_letter) (trimmed (map lower_char t))
      = filter (slug_keep is_basic_letter) (trimmed (map lower_char t))"
  proof (rule filter_cong [OF refl])
    fix x
    assume "x \<in> set (trimmed (map lower_char t))"
    with trimmed_subset [of "map lower_char t"] have "x \<in> set (map lower_char t)"
      by auto
    with assms have "code x < 128"
      by (auto simp: lower_char_ascii)
    then show "slug_keep is_letter x = slug_keep is_basic_letter x"
      by (simp add: slug_keep_def letters_agree_ascii)
  qed
  then show ?thesis
    by (simp add: slug_spec_def slug_basic_def slug_steps_def)
qed

text \<open>
  Claim C1, as the code has it. For every title, \<open>createSlug\<close> returns the title lowercased,
  trimmed, without the characters that are not a letter of the basic Latin alphabet, a
  digit, an underscore, a hyphen or whitespace, with each run of whitespace replaced by one
  hyphen and then each run of hyphens collapsed into one hyphen. For a title of characters
  below U+0080 this is the slug as the specification words it. Being a function of the
  title alone, the slug is deterministic.
\<close>

theorem createSlug_basic_letters:
  "createSlug t = slug_basic t
   \<and> ((\<forall>c \<in> set t. code c < 128) \<longrightarrow> createSlug t = slug_spec t)
   \<and> (t = t' \<longrightarrow> createSlug t = createSlug t')"
  by (simp add: createSlug_slug_basic slug_spec_ascii)

text \<open>The example of the source's comment: "My First Post!" becomes "my-first-post".\<close>

theorem createSlug_basic_letters_witness:
  "createSlug ''My First Post!'' = ''my-first-post''
   \<and> slug_basic ''My First Post!'' = ''my-first-post''
   \<and> slug_spec ''My First Post!'' = ''my-first-post''"
proof -
  have basic: "slug_basic ''My First Post!'' = ''my-first-post''"
    by code_simp
  have ascii: "\<forall>c \<in> set ''My First Post!''. code c < 128"
    by code_simp
  note claim = createSlug_basic_letters [of "''My First Post!''" "''My First Post!''"]
  from claim have slug: "createSlug ''My First Post!'' = slug_basic ''My First Post!''"
    by (rule conjunct1)
  from claim [THEN conjunct2, THEN conjunct1, THEN mp, OF ascii]
  have "createSlug ''My First Post!'' = slug_spec ''My First Post!''" .
  with slug basic show ?thesis
    by simp
qed

text \<open>
  As the claim is written, with every letter kept, it fails on a letter outside the basic
  Latin alphabet: U+00E9, the e with acute accent, is a letter, and \<open>[^\w\s-]\<close> removes it.
\<close>

theorem createSlug_letter_counterexample:
  "is_letter (char_of (233::nat))
   \<and> createSlug (''Caf'' @ [char_of (233::nat)]) = ''caf''
   \<and> slug_spec (''Caf'' @ [char_of (233::nat)]) = ''caf'' @ [char_of (233::nat)]
   \<and> createSlug (''Caf'' @ [char_of (233::nat)]) \<noteq> slug_spec (''Caf'' @ [char_of (233::nat)])"
  by code_simp

section \<open>The store and the control operators\<close>

lemma next_fault_tables:
  "next_fault st = (b, st0) \<Longrightarrow>
     posts st0 = posts st \<and> authors st0 = authors st
     \<and> posts_seq st0 = posts_seq st \<and> authors_seq st0 = authors_seq st"
  by (auto simp: next_fault_def split: list.splits)

lemma id_is_Some: "id_is (Some k) x = (x = k)"
  by (auto simp: id_is_def)

lemma id_is_None: "id_is None x = False"
  by (simp add: id_is_def)

lemma next_fault_no_faults: "faults st = [] \<Longrightarrow> next_fault st = (False, st)"
  by (simp add: next_fault_def)

lemma run_write_Inr:
  "run_write w st = (Inr v, st') \<longleftrightarrow> (\<exists>st0. next_fault st = (False, st0) \<and> w st0 = Inr (v, st'))"
  by (cases "next_fault st") (auto simp: run_write_def split: sum.splits bool.splits)

lemma run_query_Inr:
  "run_query q st = (Inr v, st') \<longleftrightarrow> next_fault st = (False, st') \<and> q st' = v"
  by (cases "next_fault st") (auto simp: run_query_def split: bool.splits)

lemma and_then_Inr:
  "and_then m f st = (Inr v, st') \<longleftrightarrow> (\<exists>u st1. m st = (Inr u, st1) \<and> f u st1 = (Inr v, st'))"
  by (cases "m st" rule: prod.exhaust; cases "fst (m st)") (auto simp: and_then_def)

lemma try_catch_Some:
  "try_catch body (\<lambda>e. None) st = (Inr (Some v), st') \<longleftrightarrow> body st = (Inr (Some v), st')"
  by (cases "body st" rule: prod.exhaust; cases "fst (body st)") (auto simp: try_catch_def)

lemma try_catch_True:
  "try_catch body (\<lambda>e. False) st = (Inr True, st') \<longleftrightarrow> body st = (Inr True, st')"
  by (cases "body st" rule: prod.exhaust; cases "fst (body st)") (auto simp: try_catch_def)

lemma fold_max_ge_start: "(s::int) \<le> fold max ids s"
proof (induction ids arbitrary: s)
  case Nil
  then show ?case by simp
next
  case (Cons y ys)
  have "s \<le> max y s" by simp
  also have "\<dots> \<le> fold max ys (max y s)" by (rule Cons.IH)
  finally show ?case by simp
qed

lemma fold_max_ge_elem: "x \<in> set ids \<Longrightarrow> (x::int) \<le> fold max ids s"
proof (induction ids arbitrary: s)
  case Nil
  then show ?case by simp
next
  case (Cons y ys)
  show ?case
  proof (cases "x = y")
    case True
    have "max y s \<le> fold max ys (max y s)" by (rule fold_max_ge_start)
    with True show ?thesis by simp
  next
    case False
    with Cons show ?thesis by simp
  qed
qed

lemma next_rowid_fresh: "next_rowid seq ids \<notin> set ids"
  using fold_max_ge_elem [of "next_rowid seq ids" ids seq]
  by (auto simp: next_rowid_def)

lemma left_join_row: "r \<in> set (left_join as p) \<Longrightarrow> row_post r = p"
  by (cases "filter (\<lambda>a. p_author_id p = Some (a_id a)) as")
    (auto simp: left_join_def join_null_def join_author_def)

lemma posts_join_rows: "r \<in> set (posts_join st) \<Longrightarrow> row_post r \<in> set (posts st)"
  by (auto simp: posts_join_def dest: left_join_row)

lemma first_row_Some: "first_row rows = Some r \<Longrightarrow> r \<in> set rows"
  by (cases rows) (auto simp: first_row_def)

lemma getPostById_Some:
  assumes "getPostById i st = (Inr (Some p), st')"
  shows "\<exists>row k. row \<in> set (posts st') \<and> parse_id i = Some k \<and> p_id row = k
      \<and> post_id p = k \<and> post_title p = p_title row \<and> post_slug p = p_slug row
      \<and> post_content p = p_content row \<and> post_excerpt p = p_excerpt row
      \<and> post_author_id p = p_author_id row
      \<and> posts st' = posts st \<and> authors st' = authors st"
proof -
  from assms obtain r where nf: "next_fault st = (False, st')"
    and r: "first_row (filter (\<lambda>r. id_is (parse_id i) (p_id (row_post r))) (posts_join st')) = Some r"
    and p: "p = mapRowToPost r"
    by (auto simp: getPostById_def run_query_Inr)
  from first_row_Some [OF r] have "r \<in> set (posts_join st')" and "id_is (parse_id i) (p_id (row_post r))"
    by auto
  with posts_join_rows [of r st'] next_fault_tables [OF nf] p show ?thesis
    by (auto simp: id_is_def mapRowToPost_def)
qed

lemma createPost_result:
  assumes "createPost lib now d st = (Inr (Some p), st')"
  shows "\<exists>row. posts st' = posts st @ [row] \<and> authors st' = authors st
      \<and> p_id row \<notin> set (map p_id (posts st)) \<and> post_id p = p_id row
      \<and> p_title row = in_title d \<and> post_title p = in_title d
      \<and> p_slug row = createSlug (in_title d) \<and> post_slug p = createSlug (in_title d)
      \<and> p_content row = sanitizeHtml lib (in_content d) (sanitizeOptions lib)
      \<and> post_content p = sanitizeHtml lib (in_content d) (sanitizeOptions lib)"
proof -
  from assms obtain rowid st0 st1 where nf: "next_fault st = (False, st0)"
    and ins: "insert_post now (in_title d) (createSlug (in_title d)) (in_excerpt d)
        (sanitizeHtml lib (in_content d) (sanitizeOptions lib)) (num_or_null (in_author_id d)) st0
        = Inr (rowid, st1)"
    and get: "getPostById (IdNum rowid) st1 = (Inr (Some p), st')"
    by (auto simp: createPost_def try_catch_Some and_then_Inr run_write_Inr Let_def)
  define row where "row = \<lparr>p_id = rowid, p_title = in_title d, p_slug = createSlug (in_title d),
      p_excerpt = in_excerpt d,
      p_content = sanitizeHtml lib (in_content d) (sanitizeOptions lib),
      p_author_id = num_or_null (in_author_id d), p_created_at = now, p_updated_at = now\<rparr>"
  from ins have rowid: "rowid = next_rowid (posts_seq st0) (map p_id (posts st0))"
    and st1: "posts st1 = posts st0 @ [row]" "authors st1 = authors st0"
    by (auto simp: insert_post_def Let_def row_def split: if_splits)
  from rowid have fresh: "rowid \<notin> set (map p_id (posts st0))"
    using next_rowid_fresh [of "posts_seq st0" "map p_id (posts st0)"] by simp
  from getPostById_Some [OF get] obtain r where r: "r \<in> set (posts st')" "p_id r = rowid"
    "post_id p = rowid" "post_title p = p_title r" "post_slug p = p_slug r"
    "post_content p = p_content r" "posts st' = posts st1" "authors st' = authors st1"
    by auto
  from r(1,2,7) st1 fresh have "r = row"
    by auto
  with r st1 fresh next_fault_tables [OF nf] show ?thesis
    by (intro exI [of _ row]) (simp add: row_def)
qed

lemma update_post_Inr:
  assumes "update_post now t s e c a (Some k) st = Inr (n, st')" and "n \<noteq> 0"
  shows "st' = st\<lparr>posts := map (\<lambda>r. if p_id r = k
            then r\<lparr>p_title := t, p_slug := s, p_excerpt := e, p_content := c,
                   p_author_id := a, p_updated_at := now\<rparr>
            else r) (posts st)\<rparr> \<and> k \<in> set (map p_id (posts st))"
proof -
  have hit: "filter (\<lambda>r. p_id r = k) (posts st) \<noteq> []"
    using assms unfolding update_post_def Let_def id_is_Some
    by (simp split: if_splits)
  then have "k \<in> set (map p_id (posts st))"
    by (auto simp: filter_empty_conv)
  moreover have "st' = st\<lparr>posts := map (\<lambda>r. if p_id r = k
            then r\<lparr>p_title := t, p_slug := s, p_excerpt := e, p_content := c,
                   p_author_id := a, p_updated_at := now\<rparr>
            else r) (posts st)\<rparr>"
    using assms unfolding update_post_def Let_def id_is_Some
    by (simp split: if_splits)
  ultimately show ?thesis by simp
qed

lemma update_post_None: "update_post now t s e c a None st = Inr (0, st)"
  unfolding update_post_def Let_def id_is_None by simp


lemma update_author_Inr:
  assumes "update_author now n e b (Some k) st = Inr (changes, st')" and "changes \<noteq> 0"
  shows "st' = st\<lparr>authors := map (\<lambda>r. if a_id r = k
            then r\<lparr>a_name := n, a_email := e, a_bio := b, a_updated_at := now\<rparr>
            else r) (authors st)\<rparr> \<and> k \<in> set (map a_id (authors st))"
proof -
  have hit: "filter (\<lambda>r. a_id r = k) (authors st) \<noteq> []"
    using assms unfolding update_author_def Let_def id_is_Some
    by (simp split: if_splits)
  then have "k \<in> set (map a_id (authors st))"
    by (auto simp: filter_empty_conv)
  moreover have "st' = st\<lparr>authors := map (\<lambda>r. if a_id r = k
            then r\<lparr>a_name := n, a_email := e, a_bio := b, a_updated_at := now\<rparr>
            else r) (authors st)\<rparr>"
    using assms unfolding update_author_def Let_def id_is_Some
    by (simp split: if_splits)
  ultimately show ?thesis by simp
qed

lemma update_author_None: "update_author now n e b None st = Inr (0, st)"
  unfolding update_author_def Let_def id_is_None by simp

lemma clear_author_ref:
  assumes "k \<in> set (map a_id as)"
  shows "(case p_author_id r of None \<Rightarrow> r
          | Some a \<Rightarrow> if a \<in> set (map a_id (filter (\<lambda>x. a_id x = k) as))
                      then r\<lparr>p_author_id := None\<rparr> else r)
       = (if p_author_id r = Some k then r\<lparr>p_author_id := None\<rparr> else r)"
  using assms by (cases "p_author_id r") auto

lemma delete_author_Inr:
  assumes "delete_author (Some k) st = Inr (changes, st')" and "0 < changes"
  shows "st' = st\<lparr>authors := filter (\<lambda>a. a_id a \<noteq> k) (authors st),
                  posts := map (\<lambda>r. if p_author_id r = Some k then r\<lparr>p_author_id := None\<rparr> else r)
                             (posts st)\<rparr>
         \<and> k \<in> set (map a_id (authors st))"
proof -
  from assms have hit: "filter (\<lambda>r. a_id r = k) (authors st) \<noteq> []"
    unfolding delete_author_def Let_def id_is_Some by auto
  then have mem: "k \<in> set (map a_id (authors st))"
    by (auto simp: filter_empty_conv)
  from assms(1) have "st' = st\<lparr>authors := filter (\<lambda>a. a_id a \<noteq> k) (authors st),
      posts := map (\<lambda>r. case p_author_id r of None \<Rightarrow> r
          | Some a \<Rightarrow> if a \<in> set (map a_id (filter (\<lambda>x. a_id x = k) (authors st)))
                      then r\<lparr>p_author_id := None\<rparr> else r) (posts st)\<rparr>"
    unfolding delete_author_def Let_def id_is_Some by simp
  with mem show ?thesis
    by (simp only: clear_author_ref [OF mem])
qed

lemma delete_author_None: "delete_author None st = Inr (n, st') \<Longrightarrow> n = 0"
  unfolding delete_author_def Let_def id_is_None by simp


lemma updatePost_result:
  assumes "updatePost lib now i d st = (Inr (Some p), st')"
  shows "\<exists>k. parse_id i = Some k \<and> k \<in> set (map p_id (posts st)) \<and> post_id p = k
      \<and> authors st' = authors st
      \<and> posts st' = map (\<lambda>r. if p_id r = k
            then r\<lparr>p_title := in_title d, p_slug := createSlug (in_title d),
                   p_excerpt := in_excerpt d,
                   p_content := sanitizeHtml lib (in_content d) (sanitizeOptions lib),
                   p_author_id := num_or_null (in_author_id d), p_updated_at := now\<rparr>
            else r) (posts st)
      \<and> post_title p = in_title d
      \<and> post_slug p = createSlug (in_title d)
      \<and> post_content p = sanitizeHtml lib (in_content d) (sanitizeOptions lib)"
proof -
  from assms obtain changes st0 st1 where nf: "next_fault st = (False, st0)"
    and upd: "update_post now (in_title d) (createSlug (in_title d)) (in_excerpt d)
        (sanitizeHtml lib (in_content d) (sanitizeOptions lib)) (num_or_null (in_author_id d))
        (parse_id i) st0 = Inr (changes, st1)"
    and rest: "(if changes = 0 then give None else getPostById i) st1 = (Inr (Some p), st')"
    by (auto simp: updatePost_def try_catch_Some and_then_Inr run_write_Inr Let_def)
  from rest have changed: "changes \<noteq> 0" and get: "getPostById i st1 = (Inr (Some p), st')"
    by (auto simp: give_def split: if_splits)
  from getPostById_Some [OF get] obtain r k where r: "r \<in> set (posts st')"
    "parse_id i = Some k" "p_id r = k" "post_id p = k" "post_title p = p_title r"
    "post_slug p = p_slug r" "post_content p = p_content r" "posts st' = posts st1"
    "authors st' = authors st1"
    by auto
  from update_post_Inr [OF upd [unfolded r(2)] changed]
  have st1: "authors st1 = authors st0"
    "posts st1 = map (\<lambda>r. if p_id r = k
            then r\<lparr>p_title := in_title d, p_slug := createSlug (in_title d),
                   p_excerpt := in_excerpt d,
                   p_content := sanitizeHtml lib (in_content d) (sanitizeOptions lib),
                   p_author_id := num_or_null (in_author_id d), p_updated_at := now\<rparr>
            else r) (posts st0)"
    and mem: "k \<in> set (map p_id (posts st0))"
    by simp_all
  from r(1) have "r \<in> set (posts st1)"
    by (simp only: r(8))
  then obtain r0 where "r0 \<in> set (posts st0)" and r0: "r = (if p_id r0 = k
            then r0\<lparr>p_title := in_title d, p_slug := createSlug (in_title d),
                   p_excerpt := in_excerpt d,
                   p_content := sanitizeHtml lib (in_content d) (sanitizeOptions lib),
                   p_author_id := num_or_null (in_author_id d), p_updated_at := now\<rparr>
            else r0)"
    unfolding st1(2) by auto
  from r0 r(3) have "p_id r0 = k"
    by (cases "p_id r0 = k") simp_all
  with r0 have fields: "p_title r = in_title d" "p_slug r = createSlug (in_title d)"
      "p_content r = sanitizeHtml lib (in_content d) (sanitizeOptions lib)"
    by simp_all
  from next_fault_tables [OF nf] have same: "posts st0 = posts st" "authors st0 = authors st"
    by simp_all
  show ?thesis
    using r(2,4,5,6,7,8,9) st1 mem fields same by (intro exI [of _ k]) simp
qed


lemma getAuthorById_Some:
  assumes "getAuthorById i st = (Inr (Some a), st')"
  shows "\<exists>k. a \<in> set (authors st') \<and> parse_id i = Some k \<and> a_id a = k
      \<and> posts st' = posts st \<and> authors st' = authors st"
proof -
  from assms have nf: "next_fault st = (False, st')"
    and r: "first_row (filter (\<lambda>r. id_is (parse_id i) (a_id r)) (authors st')) = Some a"
    by (auto simp: getAuthorById_def run_query_Inr)
  from first_row_Some [OF r] have "a \<in> set (authors st')" and "id_is (parse_id i) (a_id a)"
    by auto
  with next_fault_tables [OF nf] show ?thesis
    by (auto simp: id_is_def)
qed

lemma createAuthor_result:
  assumes "createAuthor now d st = (Inr (Some a), st')"
  shows "authors st' = authors st @ [a] \<and> posts st' = posts st
      \<and> a_id a \<notin> set (map a_id (authors st))
      \<and> a_name a = in_name d \<and> a_email a = str_or_null (in_email d)
      \<and> a_bio a = str_or_null (in_bio d)"
proof -
  from assms obtain rowid st0 st1 where nf: "next_fault st = (False, st0)"
    and ins: "insert_author now (in_name d) (str_or_null (in_email d)) (str_or_null (in_bio d)) st0
        = Inr (rowid, st1)"
    and get: "getAuthorById (IdNum rowid) st1 = (Inr (Some a), st')"
    by (auto simp: createAuthor_def try_catch_Some and_then_Inr run_write_Inr)
  define row where "row = \<lparr>a_id = rowid, a_name = in_name d, a_email = str_or_null (in_email d),
      a_bio = str_or_null (in_bio d), a_created_at = now, a_updated_at = now\<rparr>"
  from ins have rowid: "rowid = next_rowid (authors_seq st0) (map a_id (authors st0))"
    and st1: "authors st1 = authors st0 @ [row]" "posts st1 = posts st0"
    by (auto simp: insert_author_def Let_def row_def split: if_splits)
  from rowid have fresh: "rowid \<notin> set (map a_id (authors st0))"
    using next_rowid_fresh [of "authors_seq st0" "map a_id (authors st0)"] by simp
  from getAuthorById_Some [OF get] have a: "a \<in> set (authors st')" "a_id a = rowid"
    "posts st' = posts st1" "authors st' = authors st1"
    by auto
  from a(1,2,4) st1 fresh have "a = row"
    by auto
  with a st1 fresh next_fault_tables [OF nf] show ?thesis
    by (simp add: row_def)
qed

lemma updateAuthor_result:
  assumes "updateAuthor now i d st = (Inr (Some a), st')"
  shows "\<exists>k. parse_id i = Some k \<and> k \<in> set (map a_id (authors st)) \<and> a_id a = k
      \<and> posts st' = posts st
      \<and> authors st' = map (\<lambda>r. if a_id r = k
            then r\<lparr>a_name := in_name d, a_email := str_or_null (in_email d),
                   a_bio := str_or_null (in_bio d), a_updated_at := now\<rparr>
            else r) (authors st)
      \<and> a_name a = in_name d \<and> a_email a = str_or_null (in_email d)
      \<and> a_bio a = str_or_null (in_bio d)"
proof -
  from assms obtain changes st0 st1 where nf: "next_fault st = (False, st0)"
    and upd: "update_author now (in_name d) (str_or_null (in_email d)) (str_or_null (in_bio d))
        (parse_id i) st0 = Inr (changes, st1)"
    and rest: "(if changes = 0 then give None else getAuthorById i) st1 = (Inr (Some a), st')"
    by (auto simp: updateAuthor_def try_catch_Some and_then_Inr run_write_Inr)
  from rest have changed: "changes \<noteq> 0" and get: "getAuthorById i st1 = (Inr (Some a), st')"
    by (auto simp: give_def split: if_splits)
  from getAuthorById_Some [OF get] obtain k where a: "a \<in> set (authors st')"
    "parse_id i = Some k" "a_id a = k" "posts st' = posts st1" "authors st' = authors st1"
    by auto
  from update_author_Inr [OF upd [unfolded a(2)] changed]
  have st1: "posts st1 = posts st0"
    "authors st1 = map (\<lambda>r. if a_id r = k
            then r\<lparr>a_name := in_name d, a_email := str_or_null (in_email d),
                   a_bio := str_or_null (in_bio d), a_updated_at := now\<rparr>
            else r) (authors st0)"
    and mem: "k \<in> set (map a_id (authors st0))"
    by simp_all
  from a(1) have "a \<in> set (authors st1)"
    by (simp only: a(5))
  then obtain r0 where "r0 \<in> set (authors st0)" and r0: "a = (if a_id r0 = k
            then r0\<lparr>a_name := in_name d, a_email := str_or_null (in_email d),
                   a_bio := str_or_null (in_bio d), a_updated_at := now\<rparr>
            else r0)"
    unfolding st1(2) by auto
  from r0 a(3) have "a_id r0 = k"
    by (cases "a_id r0 = k") simp_all
  with r0 have fields: "a_name a = in_name d" "a_email a = str_or_null (in_email d)"
      "a_bio a = str_or_null (in_bio d)"
    by simp_all
  from next_fault_tables [OF nf] have same: "posts st0 = posts st" "authors st0 = authors st"
    by simp_all
  show ?thesis
    using a(2,3,4,5) st1 mem fields same by (intro exI [of _ k]) simp
qed

lemma deleteAuthor_result:
  assumes "deleteAuthor i st = (Inr True, st')"
  shows "\<exists>k. parse_id i = Some k \<and> k \<in> set (map a_id (authors st))
      \<and> authors st' = filter (\<lambda>a. a_id a \<noteq> k) (authors st)
      \<and> posts st' = map (\<lambda>r. if p_author_id r = Some k then r\<lparr>p_author_id := None\<rparr> else r)
            (posts st)"
proof -
  from assms obtain changes st0 where nf: "next_fault st = (False, st0)"
    and del: "delete_author (parse_id i) st0 = Inr (changes, st')" and pos: "0 < changes"
    by (auto simp: deleteAuthor_def try_catch_True and_then_Inr run_write_Inr give_def)
  from del pos obtain k where k: "parse_id i = Some k"
    by (cases "parse_id i") (auto dest: delete_author_None)
  from delete_author_Inr [OF del [unfolded k] pos] next_fault_tables [OF nf] k
  show ?thesis
    by (intro exI [of _ k]) simp
qed

section \<open>Session gate\<close>

text \<open>
  Claim C3. An unauthenticated request to an admin path is not passed on: the gate records
  the requested URL in the session and redirects to \<open>/login\<close>. A login with the correct
  credential then redirects to the recorded URL and clears it, and a second login with the
  correct credential redirects to \<open>/admin/posts\<close>.
\<close>

theorem session_gate_returns_once:
  assumes "isAuthenticated sess \<noteq> Some True" and "admin_path url"
    and "password = ADMIN_PASSWORD"
  shows "requireAuth sess url = (Redirect ''/login'', sess\<lparr>returnTo := Some url\<rparr>)
    \<and> handleLogin ADMIN_PASSWORD password (snd (requireAuth sess url))
        = (Redirect url, sess\<lparr>isAuthenticated := Some True, returnTo := None\<rparr>)
    \<and> handleLogin ADMIN_PASSWORD password
          (snd (handleLogin ADMIN_PASSWORD password (snd (requireAuth sess url))))
        = (Redirect ''/admin/posts'', sess\<lparr>isAuthenticated := Some True, returnTo := None\<rparr>)"
proof -
  from assms(2) have "url \<noteq> []"
    by (auto simp: admin_path_def)
  with assms(1,3) show ?thesis
    by (simp add: requireAuth_def handleLogin_def)
qed

theorem session_gate_returns_once_witness:
  "requireAuth visitor ''/admin/posts/new''
     = (Redirect ''/login'', visitor\<lparr>returnTo := Some ''/admin/posts/new''\<rparr>)
   \<and> handleLogin (Some ''secret'') (Some ''secret'') (snd (requireAuth visitor ''/admin/posts/new''))
     = (Redirect ''/admin/posts/new'', visitor\<lparr>isAuthenticated := Some True, returnTo := None\<rparr>)
   \<and> handleLogin (Some ''secret'') (Some ''secret'')
        (snd (handleLogin (Some ''secret'') (Some ''secret'')
           (snd (requireAuth visitor ''/admin/posts/new''))))
     = (Redirect ''/admin/posts'', visitor\<lparr>isAuthenticated := Some True, returnTo := None\<rparr>)"
proof -
  have guest: "isAuthenticated visitor \<noteq> Some True"
    by (simp add: visitor_def)
  have path: "admin_path ''/admin/posts/new''"
    by (simp add: admin_path_def)
  show ?thesis
    by (rule session_gate_returns_once [OF guest path refl])
qed

section \<open>Search\<close>

lemma like_percent: "like ''%'' s"
  by (induction s) simp_all

lemma like_empty_query: "like (searchPattern []) s"
  by (induction s) (simp_all add: searchPattern_def like_percent)

lemma left_join_not_empty: "left_join as p \<noteq> []"
  by (cases "filter (\<lambda>a. p_author_id p = Some (a_id a)) as") (simp_all add: left_join_def)

lemma posts_join_posts: "set (map row_post (posts_join st)) = set (posts st)"
proof
  show "set (map row_post (posts_join st)) \<subseteq> set (posts st)"
    using posts_join_rows by auto
next
  show "set (posts st) \<subseteq> set (map row_post (posts_join st))"
  proof
    fix p
    assume p: "p \<in> set (posts st)"
    from left_join_not_empty [of "authors st" p] obtain r where r: "r \<in> set (left_join (authors st) p)"
      by (cases "left_join (authors st) p") auto
    with left_join_row [OF r] p show "p \<in> set (map row_post (posts_join st))"
      by (force simp: posts_join_def)
  qed
qed

lemma order_by_desc_sorted: "sorted (rev (map key (order_by_desc key rows)))"
  by (simp add: order_by_desc_def rev_map [symmetric])

lemma order_by_desc_set: "set (order_by_desc key rows) = set rows"
  by (simp add: order_by_desc_def)

lemma getAllPosts_Inr:
  assumes "getAllPosts st = (Inr ps, st')"
  shows "sorted (rev (map post_createdAt ps)) \<and> set (map post_id ps) = set (map p_id (posts st))"
proof -
  from assms have nf: "next_fault st = (False, st')"
    and ps: "ps = map mapRowToPost (order_by_desc (\<lambda>r. p_created_at (row_post r)) (posts_join st'))"
    by (auto simp: getAllPosts_def run_query_Inr)
  have "map post_createdAt ps
      = map (\<lambda>r. p_created_at (row_post r)) (order_by_desc (\<lambda>r. p_created_at (row_post r)) (posts_join st'))"
    by (simp add: ps mapRowToPost_def)
  then have "sorted (rev (map post_createdAt ps))"
    by (simp only: order_by_desc_sorted)
  moreover have "set (map post_id ps) = set (map p_id (map row_post (posts_join st')))"
    by (simp add: ps mapRowToPost_def order_by_desc_set image_image)
  then have "set (map post_id ps) = set (map p_id (posts st'))"
    using posts_join_posts [of st'] by (metis set_map)
  ultimately show ?thesis
    using next_fault_tables [OF nf] by simp
qed

lemma getAllAuthors_Inr:
  assumes "getAllAuthors st = (Inr as, st')"
  shows "sorted (map a_name as) \<and> set as = set (authors st) \<and> length as = length (authors st)"
proof -
  from assms have nf: "next_fault st = (False, st')" and "as = order_by_asc a_name (authors st')"
    by (auto simp: getAllAuthors_def run_query_Inr)
  with next_fault_tables [OF nf] show ?thesis
    by (simp add: order_by_asc_def)
qed

text \<open>
  Claim C8. In every state of the store the empty query finds everything, in the order of
  the list-all operation: \<open>searchPosts("")\<close> is \<open>getAllPosts()\<close>, every post by creation
  timestamp descending, and \<open>searchAuthors("")\<close> is \<open>getAllAuthors()\<close>, every author by name
  ascending.
\<close>

theorem search_empty_query_lists_all:
  "searchPosts [] st = getAllPosts st \<and> searchAuthors [] st = getAllAuthors st
   \<and> (getAllPosts st = (Inr ps, st') \<longrightarrow>
        sorted (rev (map post_createdAt ps)) \<and> set (map post_id ps) = set (map p_id (posts st)))
   \<and> (getAllAuthors st = (Inr as, st'') \<longrightarrow>
        sorted (map a_name as) \<and> set as = set (authors st) \<and> length as = length (authors st))"
  using getAllPosts_Inr [of st ps st'] getAllAuthors_Inr [of st as st'']
  by (simp add: searchPosts_def getAllPosts_def searchAuthors_def getAllAuthors_def
      like_empty_query sql_true_def)

lemma blog_posts: "getAllPosts blog = (Inr [alphabet_post, hello_post], blog)"
  by code_simp

lemma blog_authors: "getAllAuthors blog = (Inr [ada, bob], blog)"
  by code_simp

theorem search_empty_query_lists_all_witness:
  "searchPosts [] blog = (Inr [alphabet_post, hello_post], blog)
   \<and> searchAuthors [] blog = (Inr [ada, bob], blog)
   \<and> sorted (rev (map post_createdAt [alphabet_post, hello_post]))
   \<and> sorted (map a_name [ada, bob])"
  using search_empty_query_lists_all [of blog "[alphabet_post, hello_post]" blog "[ada, bob]" blog]
  by (simp add: blog_posts blog_authors)

text \<open>
  Claim C10. The pattern of a search is the raw query between two \<open>%\<close>, so \<open>%\<close> and \<open>_\<close> in
  the query are wildcards: the query \<open>a%b\<close> finds a post and the query \<open>a_a\<close> finds an author
  although no searched field contains the query as a literal substring.
\<close>

theorem search_wildcards_not_escaped:
  "searchPattern ''a%b'' = ''%a%b%''
   \<and> searchPosts ''a%b'' blog = (Inr [alphabet_post], blog)
   \<and> \<not> has_substring ''a%b'' (post_title alphabet_post)
   \<and> \<not> has_substring ''a%b'' (post_excerpt alphabet_post)
   \<and> \<not> has_substring ''a%b'' (post_content alphabet_post)
   \<and> searchPattern ''a_a'' = ''%a_a%''
   \<and> searchAuthors ''a_a'' blog = (Inr [ada], blog)
   \<and> \<not> has_substring ''a_a'' (a_name ada) \<and> a_email ada = None"
  by code_simp

section \<open>What a repository operation does to the tables\<close>

lemma run_query_tables:
  "posts (snd (run_query q st)) = posts st \<and> authors (snd (run_query q st)) = authors st"
proof (cases "next_fault st")
  case (Pair b st0)
  with next_fault_tables [OF Pair] show ?thesis
    by (cases b) (simp_all add: run_query_def)
qed

lemma run_query_fault:
  "faults st = True # fs \<Longrightarrow> fst (run_query q st) = Inl (SqliteError SQLITE_IOERR)"
  by (simp add: run_query_def next_fault_def)

lemma run_write_effect:
  assumes "run_write w st = (r, st')"
  shows "(posts st' = posts st \<and> authors st' = authors st)
    \<or> (\<exists>v st0. r = Inr v \<and> posts st0 = posts st \<and> authors st0 = authors st
          \<and> w st0 = Inr (v, st'))"
proof (cases "next_fault st")
  case (Pair b st0)
  note tables = next_fault_tables [OF Pair]
  show ?thesis
  proof (cases b)
    case True
    with assms Pair tables show ?thesis
      by (auto simp: run_write_def)
  next
    case False
    show ?thesis
    proof (cases "w st0")
      case (Inl e)
      with assms Pair False tables show ?thesis
        by (auto simp: run_write_def)
    next
      case (Inr res)
      with assms Pair False tables show ?thesis
        by (cases res) (auto simp: run_write_def)
    qed
  qed
qed

lemma snd_try_catch: "snd (try_catch body handler st) = snd (body st)"
  by (cases "body st" rule: prod.exhaust; cases "fst (body st)") (auto simp: try_catch_def)

lemma and_then_tables:
  assumes "\<And>v s. posts (snd (f v s)) = posts s \<and> authors (snd (f v s)) = authors s"
  shows "posts (snd (and_then m f st)) = posts (snd (m st))
    \<and> authors (snd (and_then m f st)) = authors (snd (m st))"
  using assms by (cases "m st" rule: prod.exhaust; cases "fst (m st)") (auto simp: and_then_def)

lemma give_tables: "posts (snd (give v s)) = posts s \<and> authors (snd (give v s)) = authors s"
  by (simp add: give_def)

lemma getPostById_tables:
  "posts (snd (getPostById i s)) = posts s \<and> authors (snd (getPostById i s)) = authors s"
  unfolding getPostById_def by (rule run_query_tables)

lemma getAuthorById_tables:
  "posts (snd (getAuthorById i s)) = posts s \<and> authors (snd (getAuthorById i s)) = authors s"
  unfolding getAuthorById_def by (rule run_query_tables)

lemma insert_post_Inr:
  assumes "insert_post now t s e c a st = Inr (rowid, st')"
  shows "authors st' = authors st \<and> rowid \<notin> set (map p_id (posts st))
    \<and> posts st' = posts st @ [\<lparr>p_id = rowid, p_title = t, p_slug = s, p_excerpt = e,
          p_content = c, p_author_id = a, p_created_at = now, p_updated_at = now\<rparr>]"
proof -
  from assms have rowid: "rowid = next_rowid (posts_seq st) (map p_id (posts st))"
    and st': "st' = st\<lparr>posts := posts st @ [\<lparr>p_id = rowid, p_title = t, p_slug = s,
          p_excerpt = e, p_content = c, p_author_id = a, p_created_at = now,
          p_updated_at = now\<rparr>], posts_seq := rowid\<rparr>"
    unfolding insert_post_def Let_def by (auto split: if_splits)
  from rowid have "rowid \<notin> set (map p_id (posts st))"
    using next_rowid_fresh [of "posts_seq st" "map p_id (posts st)"] by simp
  with st' show ?thesis by simp
qed

lemma insert_author_Inr:
  assumes "insert_author now n e b st = Inr (rowid, st')"
  shows "posts st' = posts st \<and> rowid \<notin> set (map a_id (authors st))
    \<and> authors st' = authors st @ [\<lparr>a_id = rowid, a_name = n, a_email = e, a_bio = b,
          a_created_at = now, a_updated_at = now\<rparr>]"
proof -
  from assms have rowid: "rowid = next_rowid (authors_seq st) (map a_id (authors st))"
    and st': "st' = st\<lparr>authors := authors st @ [\<lparr>a_id = rowid, a_name = n, a_email = e,
          a_bio = b, a_created_at = now, a_updated_at = now\<rparr>], authors_seq := rowid\<rparr>"
    unfolding insert_author_def Let_def by (auto split: if_splits)
  from rowid have "rowid \<notin> set (map a_id (authors st))"
    using next_rowid_fresh [of "authors_seq st" "map a_id (authors st)"] by simp
  with st' show ?thesis by simp
qed

lemma update_post_effect:
  assumes "update_post now t s e c a param st = Inr (n, st')"
  shows "authors st' = authors st
    \<and> (posts st' = posts st
       \<or> (\<exists>k. posts st' = map (\<lambda>r. if p_id r = k
            then r\<lparr>p_title := t, p_slug := s, p_excerpt := e, p_content := c,
                   p_author_id := a, p_updated_at := now\<rparr>
            else r) (posts st)))"
proof (cases param)
  case None
  with assms show ?thesis by (simp add: update_post_None)
next
  case (Some k)
  show ?thesis
  proof (cases "n = 0")
    case True
    with assms show ?thesis
      unfolding update_post_def Let_def by (simp split: if_splits)
  next
    case False
    from update_post_Inr [OF assms [unfolded Some] False] show ?thesis
      by auto
  qed
qed

lemma update_author_effect:
  assumes "update_author now n e b param st = Inr (changes, st')"
  shows "posts st' = posts st
    \<and> (authors st' = authors st
       \<or> (\<exists>k. authors st' = map (\<lambda>r. if a_id r = k
            then r\<lparr>a_name := n, a_email := e, a_bio := b, a_updated_at := now\<rparr>
            else r) (authors st)))"
proof (cases param)
  case None
  with assms show ?thesis by (simp add: update_author_None)
next
  case (Some k)
  show ?thesis
  proof (cases "changes = 0")
    case True
    with assms show ?thesis
      unfolding update_author_def Let_def by (simp split: if_splits)
  next
    case False
    from update_author_Inr [OF assms [unfolded Some] False] show ?thesis
      by auto
  qed
qed

lemma delete_post_effect:
  assumes "delete_post param st = Inr (n, st')"
  shows "authors st' = authors st \<and> (\<exists>P. posts st' = filter P (posts st))"
  using assms unfolding delete_post_def Let_def by auto

lemma delete_author_effect:
  assumes "delete_author param st = Inr (n, st')"
  shows "(\<exists>P. authors st' = filter P (authors st))
    \<and> (\<exists>f. posts st' = map f (posts st)
          \<and> (\<forall>r. f r = r \<or> f r = r\<lparr>p_author_id := None\<rparr>))"
proof -
  let ?gone = "map a_id (filter (\<lambda>r. id_is param (a_id r)) (authors st))"
  let ?f = "\<lambda>r. case p_author_id r of None \<Rightarrow> r
      | Some a \<Rightarrow> if a \<in> set ?gone then r\<lparr>p_author_id := None\<rparr> else r"
  from assms have "authors st' = filter (\<lambda>r. \<not> id_is param (a_id r)) (authors st)"
    and "posts st' = map ?f (posts st)"
    unfolding delete_author_def Let_def by auto
  moreover have "\<forall>r. ?f r = r \<or> ?f r = r\<lparr>p_author_id := None\<rparr>"
    by (auto split: option.splits)
  ultimately show ?thesis by blast
qed

lemma createPost_effect:
  "authors (snd (createPost lib now d st)) = authors st
   \<and> (posts (snd (createPost lib now d st)) = posts st
      \<or> (\<exists>row. posts (snd (createPost lib now d st)) = posts st @ [row]
            \<and> p_id row \<notin> set (map p_id (posts st))
            \<and> p_title row = in_title d \<and> p_slug row = createSlug (in_title d)
            \<and> p_content row = sanitizeHtml lib (in_content d) (sanitizeOptions lib)))"
proof -
  let ?w = "run_write (insert_post now (in_title d) (createSlug (in_title d)) (in_excerpt d)
      (sanitizeHtml lib (in_content d) (sanitizeOptions lib)) (num_or_null (in_author_id d)))"
  have tables: "posts (snd (createPost lib now d st)) = posts (snd (?w st))
      \<and> authors (snd (createPost lib now d st)) = authors (snd (?w st))"
    unfolding createPost_def Let_def snd_try_catch
    by (rule and_then_tables) (rule getPostById_tables)
  obtain r st1 where w: "?w st = (r, st1)"
    by (cases "?w st")
  from run_write_effect [OF w] insert_post_Inr tables w show ?thesis
    by fastforce
qed

lemma updatePost_effect:
  "authors (snd (updatePost lib now i d st)) = authors st
   \<and> (posts (snd (updatePost lib now i d st)) = posts st
      \<or> (\<exists>k. posts (snd (updatePost lib now i d st)) = map (\<lambda>r. if p_id r = k
            then r\<lparr>p_title := in_title d, p_slug := createSlug (in_title d),
                   p_excerpt := in_excerpt d,
                   p_content := sanitizeHtml lib (in_content d) (sanitizeOptions lib),
                   p_author_id := num_or_null (in_author_id d), p_updated_at := now\<rparr>
            else r) (posts st)))"
proof -
  let ?w = "run_write (update_post now (in_title d) (createSlug (in_title d)) (in_excerpt d)
      (sanitizeHtml lib (in_content d) (sanitizeOptions lib)) (num_or_null (in_author_id d))
      (parse_id i))"
  have tables: "posts (snd (updatePost lib now i d st)) = posts (snd (?w st))
      \<and> authors (snd (updatePost lib now i d st)) = authors (snd (?w st))"
    unfolding updatePost_def Let_def snd_try_catch
    by (rule and_then_tables) (simp add: give_tables getPostById_tables)
  obtain r st1 where w: "?w st = (r, st1)"
    by (cases "?w st")
  from run_write_effect [OF w] update_post_effect tables w show ?thesis
    by fastforce
qed

lemma deletePost_effect:
  "authors (snd (deletePost i st)) = authors st
   \<and> (\<exists>P. posts (snd (deletePost i st)) = filter P (posts st))"
proof -
  let ?w = "run_write (delete_post (parse_id i))"
  have tables: "posts (snd (deletePost i st)) = posts (snd (?w st))
      \<and> authors (snd (deletePost i st)) = authors (snd (?w st))"
    unfolding deletePost_def snd_try_catch
    by (rule and_then_tables) (rule give_tables)
  obtain r st1 where w: "?w st = (r, st1)"
    by (cases "?w st")
  have keep: "posts st = filter (\<lambda>r. True) (posts st)"
    by simp
  from run_write_effect [OF w] show ?thesis
  proof
    assume "posts st1 = posts st \<and> authors st1 = authors st"
    with tables w keep show ?thesis by (metis snd_conv)
  next
    assume "\<exists>v st0. r = Inr v \<and> posts st0 = posts st \<and> authors st0 = authors st
        \<and> delete_post (parse_id i) st0 = Inr (v, st1)"
    then obtain v st0 where "posts st0 = posts st" "authors st0 = authors st"
      "delete_post (parse_id i) st0 = Inr (v, st1)"
      by blast
    with delete_post_effect [of "parse_id i" st0 v st1] tables w show ?thesis
      by auto
  qed
qed

lemma createAuthor_effect:
  "posts (snd (createAuthor now d st)) = posts st
   \<and> (authors (snd (createAuthor now d st)) = authors st
      \<or> (\<exists>row. authors (snd (createAuthor now d st)) = authors st @ [row]
            \<and> a_id row \<notin> set (map a_id (authors st))
            \<and> a_email row = str_or_null (in_email d)))"
proof -
  let ?w = "run_write (insert_author now (in_name d) (str_or_null (in_email d))
      (str_or_null (in_bio d)))"
  have tables: "posts (snd (createAuthor now d st)) = posts (snd (?w st))
      \<and> authors (snd (createAuthor now d st)) = authors (snd (?w st))"
    unfolding createAuthor_def snd_try_catch
    by (rule and_then_tables) (rule getAuthorById_tables)
  obtain r st1 where w: "?w st = (r, st1)"
    by (cases "?w st")
  from run_write_effect [OF w] insert_author_Inr tables w show ?thesis
    by fastforce
qed

lemma updateAuthor_effect:
  "posts (snd (updateAuthor now i d st)) = posts st
   \<and> (authors (snd (updateAuthor now i d st)) = authors st
      \<or> (\<exists>k. authors (snd (updateAuthor now i d st)) = map (\<lambda>r. if a_id r = k
            then r\<lparr>a_name := in_name d, a_email := str_or_null (in_email d),
                   a_bio := str_or_null (in_bio d), a_updated_at := now\<rparr>
            else r) (authors st)))"
proof -
  let ?w = "run_write (update_author now (in_name d) (str_or_null (in_email d))
      (str_or_null (in_bio d)) (parse_id i))"
  have tables: "posts (snd (updateAuthor now i d st)) = posts (snd (?w st))
      \<and> authors (snd (updateAuthor now i d st)) = authors (snd (?w st))"
    unfolding updateAuthor_def snd_try_catch
    by (rule and_then_tables) (simp add: give_tables getAuthorById_tables)
  obtain r st1 where w: "?w st = (r, st1)"
    by (cases "?w st")
  from run_write_effect [OF w] update_author_effect tables w show ?thesis
    by fastforce
qed

lemma deleteAuthor_effect:
  "(\<exists>P. authors (snd (deleteAuthor i st)) = filter P (authors st))
   \<and> (\<exists>f. posts (snd (deleteAuthor i st)) = map f (posts st)
         \<and> (\<forall>r. f r = r \<or> f r = r\<lparr>p_author_id := None\<rparr>))"
proof -
  let ?w = "run_write (delete_author (parse_id i))"
  have tables: "posts (snd (deleteAuthor i st)) = posts (snd (?w st))
      \<and> authors (snd (deleteAuthor i st)) = authors (snd (?w st))"
    unfolding deleteAuthor_def snd_try_catch
    by (rule and_then_tables) (rule give_tables)
  obtain r st1 where w: "?w st = (r, st1)"
    by (cases "?w st")
  from run_write_effect [OF w] show ?thesis
  proof
    assume same: "posts st1 = posts st \<and> authors st1 = authors st"
    have "authors st = filter (\<lambda>r. True) (authors st)" and "posts st = map (\<lambda>r. r) (posts st)"
      by simp_all
    with tables w same show ?thesis
      by (metis snd_conv)
  next
    assume "\<exists>v st0. r = Inr v \<and> posts st0 = posts st \<and> authors st0 = authors st
        \<and> delete_author (parse_id i) st0 = Inr (v, st1)"
    then obtain v st0 where "posts st0 = posts st" "authors st0 = authors st"
      "delete_author (parse_id i) st0 = Inr (v, st1)"
      by blast
    with delete_author_effect [of "parse_id i" st0 v st1] tables w show ?thesis
      by auto
  qed
qed

text \<open>
  The operations other than \<open>createPost\<close> and \<open>updatePost\<close> leave the title, the slug and
  the content of every post as they are.
\<close>

lemma other_operations_keep_text:
  "(\<forall>r \<in> set (posts (snd (deletePost i st))). \<exists>x \<in> set (posts st).
        p_title r = p_title x \<and> p_slug r = p_slug x \<and> p_content r = p_content x)
    \<and> (\<forall>r \<in> set (posts (snd (createAuthor now a st))). \<exists>x \<in> set (posts st).
        p_title r = p_title x \<and> p_slug r = p_slug x \<and> p_content r = p_content x)
    \<and> (\<forall>r \<in> set (posts (snd (updateAuthor now i a st))). \<exists>x \<in> set (posts st).
        p_title r = p_title x \<and> p_slug r = p_slug x \<and> p_content r = p_content x)
    \<and> (\<forall>r \<in> set (posts (snd (deleteAuthor i st))). \<exists>x \<in> set (posts st).
        p_title r = p_title x \<and> p_slug r = p_slug x \<and> p_content r = p_content x)"
proof (intro conjI)
  from deletePost_effect [of i st]
  show "\<forall>r \<in> set (posts (snd (deletePost i st))). \<exists>x \<in> set (posts st).
        p_title r = p_title x \<and> p_slug r = p_slug x \<and> p_content r = p_content x"
    by auto
  from createAuthor_effect [of now a st]
  show "\<forall>r \<in> set (posts (snd (createAuthor now a st))). \<exists>x \<in> set (posts st).
        p_title r = p_title x \<and> p_slug r = p_slug x \<and> p_content r = p_content x"
    by auto
  from updateAuthor_effect [of now i a st]
  show "\<forall>r \<in> set (posts (snd (updateAuthor now i a st))). \<exists>x \<in> set (posts st).
        p_title r = p_title x \<and> p_slug r = p_slug x \<and> p_content r = p_content x"
    by auto
  from deleteAuthor_effect [of i st] obtain f
    where f: "posts (snd (deleteAuthor i st)) = map f (posts st)"
      "\<forall>r. f r = r \<or> f r = r\<lparr>p_author_id := None\<rparr>"
    by blast
  show "\<forall>r \<in> set (posts (snd (deleteAuthor i st))). \<exists>x \<in> set (posts st).
        p_title r = p_title x \<and> p_slug r = p_slug x \<and> p_content r = p_content x"
  proof
    fix r
    assume "r \<in> set (posts (snd (deleteAuthor i st)))"
    then obtain x where x: "x \<in> set (posts st)" "r = f x"
      unfolding f(1) by auto
    from f(2) have "f x = x \<or> f x = x\<lparr>p_author_id := None\<rparr>"
      by blast
    with x show "\<exists>x \<in> set (posts st).
        p_title r = p_title x \<and> p_slug r = p_slug x \<and> p_content r = p_content x"
      by auto
  qed
qed

section \<open>Examples of the repository operations\<close>

lemma example_create:
  "createPost plain_text moment draft blog
     = (Inr (Some (draft_post 3 moment)),
        blog\<lparr>posts := [hello_row, alphabet_row, draft_row 3 moment], posts_seq := 3\<rparr>)"
  by code_simp

lemma example_update:
  "updatePost plain_text moment (IdStr ''2'') draft blog
     = (Inr (Some (draft_post 2 ''2024-02-02 10:00:00'')),
        blog\<lparr>posts := [hello_row, draft_row 2 ''2024-02-02 10:00:00'']\<rparr>)"
  by code_simp

lemma map_key_unchanged: "(\<And>r. f (g r) = f r) \<Longrightarrow> map f (map g xs) = map f xs"
  by (induction xs) simp_all

lemma fresh_id_not_member: "x \<in> set xs \<Longrightarrow> f x \<notin> set (map f xs) \<Longrightarrow> False"
  by auto

section \<open>Sanitized content\<close>

text \<open>
  Claim C2. The content a post is stored with is the sanitized form of the submitted
  content: after a successful \<open>createPost\<close> or \<open>updatePost\<close> the returned post and its row
  hold \<open>sanitizeHtml(content, sanitizeOptions)\<close>, and a store in which every content is
  sanitized stays so under both operations, whatever their outcome. The options are the
  defaults of the package with the tags \<open>h1\<close>, \<open>h2\<close>, \<open>img\<close> added, \<open>src\<close>, \<open>alt\<close>, \<open>title\<close> on
  \<open>img\<close> and \<open>href\<close>, \<open>target\<close>, \<open>rel\<close> on \<open>a\<close>.
\<close>

theorem stored_content_is_sanitized:
  "(createPost lib now d st = (Inr (Some p), st') \<longrightarrow>
      post_content p = sanitizeHtml lib (in_content d) (sanitizeOptions lib)
      \<and> post_id p \<in> set (map p_id (posts st'))
      \<and> (\<forall>r \<in> set (posts st'). p_id r = post_id p \<longrightarrow>
            p_content r = sanitizeHtml lib (in_content d) (sanitizeOptions lib)))
   \<and> (updatePost lib now i d st = (Inr (Some q), st'') \<longrightarrow>
      post_content q = sanitizeHtml lib (in_content d) (sanitizeOptions lib)
      \<and> post_id q \<in> set (map p_id (posts st''))
      \<and> (\<forall>r \<in> set (posts st''). p_id r = post_id q \<longrightarrow>
            p_content r = sanitizeHtml lib (in_content d) (sanitizeOptions lib)))
   \<and> ((\<forall>r \<in> set (posts st). \<exists>c. p_content r = sanitizeHtml lib c (sanitizeOptions lib)) \<longrightarrow>
        (\<forall>r \<in> set (posts (snd (createPost lib now d st))).
            \<exists>c. p_content r = sanitizeHtml lib c (sanitizeOptions lib))
        \<and> (\<forall>r \<in> set (posts (snd (updatePost lib now i d st))).
            \<exists>c. p_content r = sanitizeHtml lib c (sanitizeOptions lib)))
   \<and> allowedTags (sanitizeOptions lib) = allowedTags (defaults lib) @ [''h1'', ''h2'', ''img'']
   \<and> allowedAttributes (sanitizeOptions lib) ''img'' = Some [''src'', ''alt'', ''title'']
   \<and> allowedAttributes (sanitizeOptions lib) ''a'' = Some [''href'', ''target'', ''rel'']"
proof (intro conjI impI)
  assume "createPost lib now d st = (Inr (Some p), st')"
  from createPost_result [OF this] obtain row where row: "posts st' = posts st @ [row]"
    "p_id row \<notin> set (map p_id (posts st))" "post_id p = p_id row"
    "p_content row = sanitizeHtml lib (in_content d) (sanitizeOptions lib)"
    "post_content p = sanitizeHtml lib (in_content d) (sanitizeOptions lib)"
    by blast
  show "post_content p = sanitizeHtml lib (in_content d) (sanitizeOptions lib)"
    by (rule row(5))
  show "post_id p \<in> set (map p_id (posts st'))"
    using row(1,3) by simp
  show "\<forall>r \<in> set (posts st'). p_id r = post_id p \<longrightarrow>
      p_content r = sanitizeHtml lib (in_content d) (sanitizeOptions lib)"
  proof (intro ballI impI)
    fix r
    assume r: "r \<in> set (posts st')" "p_id r = post_id p"
    from r(1) row(1) have "r \<in> set (posts st) \<or> r = row"
      by auto
    moreover have "r \<notin> set (posts st)"
    proof
      assume "r \<in> set (posts st)"
      moreover from r(2) row(2,3) have "p_id r \<notin> set (map p_id (posts st))"
        by simp
      ultimately show False
        by (rule fresh_id_not_member)
    qed
    ultimately have "r = row"
      by simp
    then show "p_content r = sanitizeHtml lib (in_content d) (sanitizeOptions lib)"
      by (simp add: row(4))
  qed
next
  assume "updatePost lib now i d st = (Inr (Some q), st'')"
  from updatePost_result [OF this] obtain k where k: "k \<in> set (map p_id (posts st))"
    "post_id q = k"
    "posts st'' = map (\<lambda>r. if p_id r = k
            then r\<lparr>p_title := in_title d, p_slug := createSlug (in_title d),
                   p_excerpt := in_excerpt d,
                   p_content := sanitizeHtml lib (in_content d) (sanitizeOptions lib),
                   p_author_id := num_or_null (in_author_id d), p_updated_at := now\<rparr>
            else r) (posts st)"
    "post_content q = sanitizeHtml lib (in_content d) (sanitizeOptions lib)"
    by blast
  show "post_content q = sanitizeHtml lib (in_content d) (sanitizeOptions lib)"
    by (rule k(4))
  have ids: "map p_id (posts st'') = map p_id (posts st)"
    unfolding k(3) by (rule map_key_unchanged) simp
  show "post_id q \<in> set (map p_id (posts st''))"
    using k(1,2) by (simp only: ids)
  show "\<forall>r \<in> set (posts st''). p_id r = post_id q \<longrightarrow>
      p_content r = sanitizeHtml lib (in_content d) (sanitizeOptions lib)"
  proof (intro ballI impI)
    fix r
    assume r: "r \<in> set (posts st'')" "p_id r = post_id q"
    from r(1) obtain r0 where "r0 \<in> set (posts st)" and r0: "r = (if p_id r0 = k
            then r0\<lparr>p_title := in_title d, p_slug := createSlug (in_title d),
                   p_excerpt := in_excerpt d,
                   p_content := sanitizeHtml lib (in_content d) (sanitizeOptions lib),
                   p_author_id := num_or_null (in_author_id d), p_updated_at := now\<rparr>
            else r0)"
      unfolding k(3) by auto
    from r0 r(2) k(2) have "p_id r0 = k"
      by (cases "p_id r0 = k") simp_all
    with r0 show "p_content r = sanitizeHtml lib (in_content d) (sanitizeOptions lib)"
      by simp
  qed
next
  assume inv: "\<forall>r \<in> set (posts st). \<exists>c. p_content r = sanitizeHtml lib c (sanitizeOptions lib)"
  from createPost_effect [of lib now d st] inv
  show "\<forall>r \<in> set (posts (snd (createPost lib now d st))).
      \<exists>c. p_content r = sanitizeHtml lib c (sanitizeOptions lib)"
    by (elim conjE disjE exE) auto
  from updatePost_effect [of lib now i d st] inv
  show "\<forall>r \<in> set (posts (snd (updatePost lib now i d st))).
      \<exists>c. p_content r = sanitizeHtml lib c (sanitizeOptions lib)"
    by (elim conjE disjE exE) auto
qed (simp_all add: sanitizeOptions_def)

theorem stored_content_is_sanitized_witness:
  "createPost plain_text moment draft blog
     = (Inr (Some (draft_post 3 moment)),
        blog\<lparr>posts := [hello_row, alphabet_row, draft_row 3 moment], posts_seq := 3\<rparr>)
   \<and> post_content (draft_post 3 moment) = sanitizeHtml plain_text (in_content draft) (sanitizeOptions plain_text)
   \<and> p_content (draft_row 3 moment) = sanitizeHtml plain_text (in_content draft) (sanitizeOptions plain_text)
   \<and> sanitizeHtml plain_text (in_content draft) (sanitizeOptions plain_text) = ''Hix''
   \<and> updatePost plain_text moment (IdStr ''2'') draft blog
     = (Inr (Some (draft_post 2 ''2024-02-02 10:00:00'')),
        blog\<lparr>posts := [hello_row, draft_row 2 ''2024-02-02 10:00:00'']\<rparr>)
   \<and> post_content (draft_post 2 ''2024-02-02 10:00:00'')
     = sanitizeHtml plain_text (in_content draft) (sanitizeOptions plain_text)
   \<and> p_content (draft_row 2 ''2024-02-02 10:00:00'')
     = sanitizeHtml plain_text (in_content draft) (sanitizeOptions plain_text)"
proof -
  have clean: "sanitizeHtml plain_text (in_content draft) (sanitizeOptions plain_text) = ''Hix''"
    by (simp add: plain_text_def draft_def)
  have rows: "p_content (draft_row 3 moment) = ''Hix''"
    "p_content (draft_row 2 ''2024-02-02 10:00:00'') = ''Hix''"
    by (simp_all add: draft_row_def)
  note claim = stored_content_is_sanitized [of plain_text moment draft blog "draft_post 3 moment"
      "blog\<lparr>posts := [hello_row, alphabet_row, draft_row 3 moment], posts_seq := 3\<rparr>"
      "IdStr ''2''" "draft_post 2 ''2024-02-02 10:00:00''"
      "blog\<lparr>posts := [hello_row, draft_row 2 ''2024-02-02 10:00:00'']\<rparr>"]
  from claim [THEN conjunct1, THEN mp, OF example_create]
  have created: "post_content (draft_post 3 moment)
      = sanitizeHtml plain_text (in_content draft) (sanitizeOptions plain_text)"
    by (rule conjunct1)
  from claim [THEN conjunct2, THEN conjunct1, THEN mp, OF example_update]
  have updated: "post_content (draft_post 2 ''2024-02-02 10:00:00'')
      = sanitizeHtml plain_text (in_content draft) (sanitizeOptions plain_text)"
    by (rule conjunct1)
  show ?thesis
    by (intro conjI example_create example_update created updated clean)
      (simp_all only: clean rows)
qed

section \<open>Slugs\<close>

lemma updated_row_cases:
  assumes "r \<in> set (map (\<lambda>x. if p_id x = k then g x else x) xs)"
  shows "(r \<in> set xs \<and> p_id r \<noteq> k) \<or> (\<exists>x \<in> set xs. p_id x = k \<and> r = g x)"
  using assms by auto

text \<open>
  Claim C7. After a successful \<open>createPost\<close> and after a successful \<open>updatePost\<close>, whether
  or not the title changed, the post has the submitted title and its slug is \<open>createSlug\<close> of
  that title, in the returned object and in the row; so a store in which every slug is
  derived from its title stays so under both operations.
\<close>

theorem slug_follows_title:
  "(createPost lib now d st = (Inr (Some p), st') \<longrightarrow>
      post_title p = in_title d \<and> post_slug p = createSlug (post_title p)
      \<and> (\<forall>r \<in> set (posts st'). p_id r = post_id p \<longrightarrow>
            p_title r = in_title d \<and> p_slug r = createSlug (p_title r)))
   \<and> (updatePost lib now i d st = (Inr (Some q), st'') \<longrightarrow>
      post_title q = in_title d \<and> post_slug q = createSlug (post_title q)
      \<and> (\<forall>r \<in> set (posts st''). p_id r = post_id q \<longrightarrow>
            p_title r = in_title d \<and> p_slug r = createSlug (p_title r)))
   \<and> ((\<forall>r \<in> set (posts st). p_slug r = createSlug (p_title r)) \<longrightarrow>
        (\<forall>r \<in> set (posts (snd (createPost lib now d st))). p_slug r = createSlug (p_title r))
        \<and> (\<forall>r \<in> set (posts (snd (updatePost lib now i d st))).
              p_slug r = createSlug (p_title r)))"
proof (intro conjI impI)
  assume "createPost lib now d st = (Inr (Some p), st')"
  from createPost_result [OF this] obtain row where row: "posts st' = posts st @ [row]"
    "p_id row \<notin> set (map p_id (posts st))" "post_id p = p_id row"
    "p_title row = in_title d" "p_slug row = createSlug (in_title d)"
    "post_title p = in_title d" "post_slug p = createSlug (in_title d)"
    by blast
  show "post_title p = in_title d"
    by (rule row(6))
  show "post_slug p = createSlug (post_title p)"
    by (simp only: row(6,7))
  show "\<forall>r \<in> set (posts st'). p_id r = post_id p \<longrightarrow>
      p_title r = in_title d \<and> p_slug r = createSlug (p_title r)"
  proof (intro ballI impI)
    fix r
    assume r: "r \<in> set (posts st')" "p_id r = post_id p"
    from r(1) row(1) have "r \<in> set (posts st) \<or> r = row"
      by auto
    moreover have "r \<notin> set (posts st)"
    proof
      assume "r \<in> set (posts st)"
      moreover from r(2) row(2,3) have "p_id r \<notin> set (map p_id (posts st))"
        by simp
      ultimately show False
        by (rule fresh_id_not_member)
    qed
    ultimately have "r = row"
      by simp
    then show "p_title r = in_title d \<and> p_slug r = createSlug (p_title r)"
      by (simp add: row(4,5))
  qed
next
  assume "updatePost lib now i d st = (Inr (Some q), st'')"
  from updatePost_result [OF this] obtain k where k: "post_id q = k"
    "posts st'' = map (\<lambda>r. if p_id r = k
            then r\<lparr>p_title := in_title d, p_slug := createSlug (in_title d),
                   p_excerpt := in_excerpt d,
                   p_content := sanitizeHtml lib (in_content d) (sanitizeOptions lib),
                   p_author_id := num_or_null (in_author_id d), p_updated_at := now\<rparr>
            else r) (posts st)"
    "post_title q = in_title d" "post_slug q = createSlug (in_title d)"
    by blast
  show "post_title q = in_title d"
    by (rule k(3))
  show "post_slug q = createSlug (post_title q)"
    by (simp only: k(3,4))
  show "\<forall>r \<in> set (posts st''). p_id r = post_id q \<longrightarrow>
      p_title r = in_title d \<and> p_slug r = createSlug (p_title r)"
  proof (intro ballI impI)
    fix r
    assume r: "r \<in> set (posts st'')" "p_id r = post_id q"
    from r(1) have "(r \<in> set (posts st) \<and> p_id r \<noteq> k) \<or> (\<exists>x \<in> set (posts st). p_id x = k
        \<and> r = x\<lparr>p_title := in_title d, p_slug := createSlug (in_title d),
                   p_excerpt := in_excerpt d,
                   p_content := sanitizeHtml lib (in_content d) (sanitizeOptions lib),
                   p_author_id := num_or_null (in_author_id d), p_updated_at := now\<rparr>)"
      unfolding k(2) by (rule updated_row_cases)
    with r(2) k(1) obtain x where "r = x\<lparr>p_title := in_title d,
        p_slug := createSlug (in_title d), p_excerpt := in_excerpt d,
        p_content := sanitizeHtml lib (in_content d) (sanitizeOptions lib),
        p_author_id := num_or_null (in_author_id d), p_updated_at := now\<rparr>"
      by auto
    then show "p_title r = in_title d \<and> p_slug r = createSlug (p_title r)"
      by simp
  qed
next
  assume inv: "\<forall>r \<in> set (posts st). p_slug r = createSlug (p_title r)"
  from createPost_effect [of lib now d st]
  consider "posts (snd (createPost lib now d st)) = posts st"
    | row where "posts (snd (createPost lib now d st)) = posts st @ [row]"
      "p_title row = in_title d" "p_slug row = createSlug (in_title d)"
    by blast
  then show "\<forall>r \<in> set (posts (snd (createPost lib now d st))). p_slug r = createSlug (p_title r)"
  proof cases
    case 1
    with inv show ?thesis by simp
  next
    case 2
    with inv show ?thesis by simp
  qed
  from updatePost_effect [of lib now i d st]
  consider "posts (snd (updatePost lib now i d st)) = posts st"
    | k where "posts (snd (updatePost lib now i d st)) = map (\<lambda>r. if p_id r = k
            then r\<lparr>p_title := in_title d, p_slug := createSlug (in_title d),
                   p_excerpt := in_excerpt d,
                   p_content := sanitizeHtml lib (in_content d) (sanitizeOptions lib),
                   p_author_id := num_or_null (in_author_id d), p_updated_at := now\<rparr>
            else r) (posts st)"
    by blast
  then show "\<forall>r \<in> set (posts (snd (updatePost lib now i d st))).
      p_slug r = createSlug (p_title r)"
  proof cases
    case 1
    with inv show ?thesis by simp
  next
    case 2
    show ?thesis
    proof
      fix r
      assume "r \<in> set (posts (snd (updatePost lib now i d st)))"
      then have "(r \<in> set (posts st) \<and> p_id r \<noteq> k) \<or> (\<exists>x \<in> set (posts st). p_id x = k
        \<and> r = x\<lparr>p_title := in_title d, p_slug := createSlug (in_title d),
                   p_excerpt := in_excerpt d,
                   p_content := sanitizeHtml lib (in_content d) (sanitizeOptions lib),
                   p_author_id := num_or_null (in_author_id d), p_updated_at := now\<rparr>)"
        unfolding 2 by (rule updated_row_cases)
      with inv show "p_slug r = createSlug (p_title r)"
        by auto
    qed
  qed
qed

theorem slug_follows_title_witness:
  "createPost plain_text moment draft blog
     = (Inr (Some (draft_post 3 moment)),
        blog\<lparr>posts := [hello_row, alphabet_row, draft_row 3 moment], posts_seq := 3\<rparr>)
   \<and> post_title (draft_post 3 moment) = ''My First Post!''
   \<and> post_slug (draft_post 3 moment) = createSlug (post_title (draft_post 3 moment))
   \<and> updatePost plain_text moment (IdStr ''2'') draft blog
     = (Inr (Some (draft_post 2 ''2024-02-02 10:00:00'')),
        blog\<lparr>posts := [hello_row, draft_row 2 ''2024-02-02 10:00:00'']\<rparr>)
   \<and> post_title (draft_post 2 ''2024-02-02 10:00:00'') = ''My First Post!''
   \<and> post_slug (draft_post 2 ''2024-02-02 10:00:00'')
       = createSlug (post_title (draft_post 2 ''2024-02-02 10:00:00''))"
proof -
  note claim = slug_follows_title [of plain_text moment draft blog "draft_post 3 moment"
      "blog\<lparr>posts := [hello_row, alphabet_row, draft_row 3 moment], posts_seq := 3\<rparr>"
      "IdStr ''2''" "draft_post 2 ''2024-02-02 10:00:00''"
      "blog\<lparr>posts := [hello_row, draft_row 2 ''2024-02-02 10:00:00'']\<rparr>"]
  have title: "in_title draft = ''My First Post!''"
    by (simp add: draft_def)
  from claim [THEN conjunct1, THEN mp, OF example_create]
  have created: "post_title (draft_post 3 moment) = ''My First Post!''"
    "post_slug (draft_post 3 moment) = createSlug (post_title (draft_post 3 moment))"
    by (simp_all only: title)
  from claim [THEN conjunct2, THEN conjunct1, THEN mp, OF example_update]
  have updated: "post_title (draft_post 2 ''2024-02-02 10:00:00'') = ''My First Post!''"
    "post_slug (draft_post 2 ''2024-02-02 10:00:00'')
       = createSlug (post_title (draft_post 2 ''2024-02-02 10:00:00''))"
    by (simp_all only: title)
  show ?thesis
    by (intro conjI example_create example_update created updated)
qed

section \<open>Exceptions at the repository boundary\<close>

lemma try_catch_returns: "\<exists>v. fst (try_catch body handler st) = Inr v"
  by (cases "body st" rule: prod.exhaust; cases "fst (body st)") (auto simp: try_catch_def)

lemma try_catch_raised:
  "fst (body st) = Inl e \<Longrightarrow> fst (try_catch body handler st) = Inr (handler e)"
  by (cases "body st" rule: prod.exhaust) (auto simp: try_catch_def)

lemma and_then_raised: "fst (m st) = Inl e \<Longrightarrow> fst (and_then m f st) = Inl e"
  by (cases "m st" rule: prod.exhaust) (auto simp: and_then_def)

lemma and_then_raised_later:
  "m st = (Inr v, st1) \<Longrightarrow> fst (f v st1) = Inl e \<Longrightarrow> fst (and_then m f st) = Inl e"
  by (simp add: and_then_def)

lemma run_write_fault:
  "faults st = True # fs \<Longrightarrow> fst (run_write w st) = Inl (SqliteError SQLITE_IOERR)"
  by (simp add: run_write_def next_fault_def)

lemma run_query_fault_state:
  "faults st = True # fs \<Longrightarrow> run_query q st = (Inl (SqliteError SQLITE_IOERR), st\<lparr>faults := fs\<rparr>)"
  by (simp add: run_query_def next_fault_def)

text \<open>
  Claim C6, as the code has it. The six mutating operations run inside \<open>try\<close>/\<open>catch\<close>:
  none of them raises, and whenever a statement of the operation raises, be it the
  \<open>INSERT\<close>, \<open>UPDATE\<close> or \<open>DELETE\<close> or the \<open>SELECT\<close> that reads the row back, the operation
  returns \<open>null\<close> (create and update) or \<open>false\<close> (delete). The read operations have no
  \<open>try\<close>/\<open>catch\<close>: when the store fails, the exception of the statement leaves the
  repository.
\<close>

theorem mutations_catch_reads_raise:
  "(\<exists>v. fst (createPost lib now d st) = Inr v)
   \<and> (\<exists>v. fst (updatePost lib now i d st) = Inr v)
   \<and> (\<exists>v. fst (deletePost i st) = Inr v)
   \<and> (\<exists>v. fst (createAuthor now a st) = Inr v)
   \<and> (\<exists>v. fst (updateAuthor now i a st) = Inr v)
   \<and> (\<exists>v. fst (deleteAuthor i st) = Inr v)
   \<and> (fst (run_write (insert_post now (in_title d) (createSlug (in_title d)) (in_excerpt d)
          (sanitizeHtml lib (in_content d) (sanitizeOptions lib))
          (num_or_null (in_author_id d))) st) = Inl e \<longrightarrow>
        fst (createPost lib now d st) = Inr None)
   \<and> (run_write (insert_post now (in_title d) (createSlug (in_title d)) (in_excerpt d)
          (sanitizeHtml lib (in_content d) (sanitizeOptions lib))
          (num_or_null (in_author_id d))) st = (Inr rowid, st1)
        \<and> fst (getPostById (IdNum rowid) st1) = Inl e \<longrightarrow>
        fst (createPost lib now d st) = Inr None)
   \<and> (fst (run_write (update_post now (in_title d) (createSlug (in_title d)) (in_excerpt d)
          (sanitizeHtml lib (in_content d) (sanitizeOptions lib))
          (num_or_null (in_author_id d)) (parse_id i)) st) = Inl e \<longrightarrow>
        fst (updatePost lib now i d st) = Inr None)
   \<and> (run_write (update_post now (in_title d) (createSlug (in_title d)) (in_excerpt d)
          (sanitizeHtml lib (in_content d) (sanitizeOptions lib))
          (num_or_null (in_author_id d)) (parse_id i)) st = (Inr changes, st1)
        \<and> changes \<noteq> 0 \<and> fst (getPostById i st1) = Inl e \<longrightarrow>
        fst (updatePost lib now i d st) = Inr None)
   \<and> (fst (run_write (delete_post (parse_id i)) st) = Inl e \<longrightarrow>
        fst (deletePost i st) = Inr False)
   \<and> (fst (run_write (insert_author now (in_name a) (str_or_null (in_email a))
          (str_or_null (in_bio a))) st) = Inl e \<longrightarrow>
        fst (createAuthor now a st) = Inr None)
   \<and> (run_write (insert_author now (in_name a) (str_or_null (in_email a))
          (str_or_null (in_bio a))) st = (Inr rowid, st1)
        \<and> fst (getAuthorById (IdNum rowid) st1) = Inl e \<longrightarrow>
        fst (createAuthor now a st) = Inr None)
   \<and> (fst (run_write (update_author now (in_name a) (str_or_null (in_email a))
          (str_or_null (in_bio a)) (parse_id i)) st) = Inl e \<longrightarrow>
        fst (updateAuthor now i a st) = Inr None)
   \<and> (run_write (update_author now (in_name a) (str_or_null (in_email a))
          (str_or_null (in_bio a)) (parse_id i)) st = (Inr changes, st1)
        \<and> changes \<noteq> 0 \<and> fst (getAuthorById i st1) = Inl e \<longrightarrow>
        fst (updateAuthor now i a st) = Inr None)
   \<and> (fst (run_write (delete_author (parse_id i)) st) = Inl e \<longrightarrow>
        fst (deleteAuthor i st) = Inr False)
   \<and> (faults st = True # fs \<longrightarrow>
        fst (getAllPosts st) = Inl (SqliteError SQLITE_IOERR)
        \<and> fst (getPostById i st) = Inl (SqliteError SQLITE_IOERR)
        \<and> fst (getPostBySlug slug st) = Inl (SqliteError SQLITE_IOERR)
        \<and> fst (searchPosts query st) = Inl (SqliteError SQLITE_IOERR)
        \<and> fst (getAllAuthors st) = Inl (SqliteError SQLITE_IOERR)
        \<and> fst (getAuthorById i st) = Inl (SqliteError SQLITE_IOERR)
        \<and> fst (searchAuthors query st) = Inl (SqliteError SQLITE_IOERR)
        \<and> fst (getAuthorsWithPostCount st) = Inl (SqliteError SQLITE_IOERR))"
proof (intro conjI impI)
  assume "faults st = True # fs"
  then show "fst (getAllPosts st) = Inl (SqliteError SQLITE_IOERR)"
    "fst (getPostById i st) = Inl (SqliteError SQLITE_IOERR)"
    "fst (getPostBySlug slug st) = Inl (SqliteError SQLITE_IOERR)"
    "fst (searchPosts query st) = Inl (SqliteError SQLITE_IOERR)"
    "fst (getAllAuthors st) = Inl (SqliteError SQLITE_IOERR)"
    "fst (getAuthorById i st) = Inl (SqliteError SQLITE_IOERR)"
    "fst (searchAuthors query st) = Inl (SqliteError SQLITE_IOERR)"
    "fst (getAuthorsWithPostCount st) = Inl (SqliteError SQLITE_IOERR)"
    unfolding getAllPosts_def getPostById_def getPostBySlug_def searchPosts_def
      getAllAuthors_def getAuthorById_def searchAuthors_def getAuthorsWithPostCount_def
    by (rule run_query_fault)+
next
  show "\<exists>v. fst (createPost lib now d st) = Inr v"
    unfolding createPost_def by (rule try_catch_returns)
  show "\<exists>v. fst (updatePost lib now i d st) = Inr v"
    unfolding updatePost_def by (rule try_catch_returns)
  show "\<exists>v. fst (deletePost i st) = Inr v"
    unfolding deletePost_def by (rule try_catch_returns)
  show "\<exists>v. fst (createAuthor now a st) = Inr v"
    unfolding createAuthor_def by (rule try_catch_returns)
  show "\<exists>v. fst (updateAuthor now i a st) = Inr v"
    unfolding updateAuthor_def by (rule try_catch_returns)
  show "\<exists>v. fst (deleteAuthor i st) = Inr v"
    unfolding deleteAuthor_def by (rule try_catch_returns)
next
  assume "fst (run_write (insert_post now (in_title d) (createSlug (in_title d)) (in_excerpt d)
          (sanitizeHtml lib (in_content d) (sanitizeOptions lib))
          (num_or_null (in_author_id d))) st) = Inl e"
  then show "fst (createPost lib now d st) = Inr None"
    unfolding createPost_def Let_def by (intro try_catch_raised and_then_raised)
next
  assume "run_write (insert_post now (in_title d) (createSlug (in_title d)) (in_excerpt d)
          (sanitizeHtml lib (in_content d) (sanitizeOptions lib))
          (num_or_null (in_author_id d))) st = (Inr rowid, st1)
        \<and> fst (getPostById (IdNum rowid) st1) = Inl e"
  then show "fst (createPost lib now d st) = Inr None"
    unfolding createPost_def Let_def
    by (intro try_catch_raised [where e = e] and_then_raised_later [where v = rowid and ?st1.0 = st1])
      simp_all
next
  assume "fst (run_write (update_post now (in_title d) (createSlug (in_title d)) (in_excerpt d)
          (sanitizeHtml lib (in_content d) (sanitizeOptions lib))
          (num_or_null (in_author_id d)) (parse_id i)) st) = Inl e"
  then show "fst (updatePost lib now i d st) = Inr None"
    unfolding updatePost_def Let_def by (intro try_catch_raised and_then_raised)
next
  assume "run_write (update_post now (in_title d) (createSlug (in_title d)) (in_excerpt d)
          (sanitizeHtml lib (in_content d) (sanitizeOptions lib))
          (num_or_null (in_author_id d)) (parse_id i)) st = (Inr changes, st1)
        \<and> changes \<noteq> 0 \<and> fst (getPostById i st1) = Inl e"
  then show "fst (updatePost lib now i d st) = Inr None"
    unfolding updatePost_def Let_def
    by (intro try_catch_raised [where e = e] and_then_raised_later [where v = changes and ?st1.0 = st1])
      simp_all
next
  assume "fst (run_write (delete_post (parse_id i)) st) = Inl e"
  then show "fst (deletePost i st) = Inr False"
    unfolding deletePost_def by (intro try_catch_raised and_then_raised)
next
  assume "fst (run_write (insert_author now (in_name a) (str_or_null (in_email a))
          (str_or_null (in_bio a))) st) = Inl e"
  then show "fst (createAuthor now a st) = Inr None"
    unfolding createAuthor_def by (intro try_catch_raised and_then_raised)
next
  assume "run_write (insert_author now (in_name a) (str_or_null (in_email a))
          (str_or_null (in_bio a))) st = (Inr rowid, st1)
        \<and> fst (getAuthorById (IdNum rowid) st1) = Inl e"
  then show "fst (createAuthor now a st) = Inr None"
    unfolding createAuthor_def
    by (intro try_catch_raised [where e = e] and_then_raised_later [where v = rowid and ?st1.0 = st1])
      simp_all
next
  assume "fst (run_write (update_author now (in_name a) (str_or_null (in_email a))
          (str_or_null (in_bio a)) (parse_id i)) st) = Inl e"
  then show "fst (updateAuthor now i a st) = Inr None"
    unfolding updateAuthor_def by (intro try_catch_raised and_then_raised)
next
  assume "run_write (update_author now (in_name a) (str_or_null (in_email a))
          (str_or_null (in_bio a)) (parse_id i)) st = (Inr changes, st1)
        \<and> changes \<noteq> 0 \<and> fst (getAuthorById i st1) = Inl e"
  then show "fst (updateAuthor now i a st) = Inr None"
    unfolding updateAuthor_def
    by (intro try_catch_raised [where e = e] and_then_raised_later [where v = changes and ?st1.0 = st1])
      simp_all
next
  assume "fst (run_write (delete_author (parse_id i)) st) = Inl e"
  then show "fst (deleteAuthor i st) = Inr False"
    unfolding deleteAuthor_def by (intro try_catch_raised and_then_raised)
qed

text \<open>
  The store fails at the first statement, and at the statement that reads the row back.
\<close>

theorem mutations_catch_reads_raise_witness:
  "fst (createPost plain_text moment draft (blog\<lparr>faults := [True]\<rparr>)) = Inr None
   \<and> fst (updatePost plain_text moment (IdStr ''2'') draft (blog\<lparr>faults := [True]\<rparr>)) = Inr None
   \<and> fst (deletePost (IdStr ''2'') (blog\<lparr>faults := [True]\<rparr>)) = Inr False
   \<and> fst (createAuthor moment nameless (blog\<lparr>faults := [True]\<rparr>)) = Inr None
   \<and> fst (updateAuthor moment (IdStr ''2'') nameless (blog\<lparr>faults := [True]\<rparr>)) = Inr None
   \<and> fst (deleteAuthor (IdStr ''2'') (blog\<lparr>faults := [True]\<rparr>)) = Inr False
   \<and> fst (getAllPosts (blog\<lparr>faults := [True]\<rparr>)) = Inl (SqliteError SQLITE_IOERR)
   \<and> fst (getAuthorById (IdStr ''2'') (blog\<lparr>faults := [True]\<rparr>)) = Inl (SqliteError SQLITE_IOERR)
   \<and> fst (createPost plain_text moment draft (blog\<lparr>faults := [False, True]\<rparr>)) = Inr None
   \<and> fst (updatePost plain_text moment (IdStr ''2'') draft (blog\<lparr>faults := [False, True]\<rparr>)) = Inr None
   \<and> fst (createAuthor moment nameless (blog\<lparr>faults := [False, True]\<rparr>)) = Inr None
   \<and> fst (updateAuthor moment (IdStr ''2'') nameless (blog\<lparr>faults := [False, True]\<rparr>)) = Inr None"
proof -
  have fault: "faults (blog\<lparr>faults := [True]\<rparr>) = True # []"
    by simp
  note first = mutations_catch_reads_raise [where lib = plain_text and now = moment
      and d = draft and a = nameless and i = "IdStr ''2''" and st = "blog\<lparr>faults := [True]\<rparr>"
      and e = "SqliteError SQLITE_IOERR" and fs = "[]"]
  have "fst (run_write (insert_post moment (in_title draft) (createSlug (in_title draft)) (in_excerpt draft)
        (sanitizeHtml plain_text (in_content draft) (sanitizeOptions plain_text))
        (num_or_null (in_author_id draft))) (blog\<lparr>faults := [True]\<rparr>)) = Inl (SqliteError SQLITE_IOERR)"
    using fault by (rule run_write_fault)
  with first have p1: "fst (createPost plain_text moment draft (blog\<lparr>faults := [True]\<rparr>)) = Inr None"
    by blast
  have "fst (run_write (update_post moment (in_title draft) (createSlug (in_title draft)) (in_excerpt draft)
        (sanitizeHtml plain_text (in_content draft) (sanitizeOptions plain_text))
        (num_or_null (in_author_id draft)) (parse_id (IdStr ''2''))) (blog\<lparr>faults := [True]\<rparr>)) = Inl (SqliteError SQLITE_IOERR)"
    using fault by (rule run_write_fault)
  with first have p2: "fst (updatePost plain_text moment (IdStr ''2'') draft (blog\<lparr>faults := [True]\<rparr>)) = Inr None"
    by blast
  have "fst (run_write (delete_post (parse_id (IdStr ''2''))) (blog\<lparr>faults := [True]\<rparr>)) = Inl (SqliteError SQLITE_IOERR)"
    using fault by (rule run_write_fault)
  with first have p3: "fst (deletePost (IdStr ''2'') (blog\<lparr>faults := [True]\<rparr>)) = Inr False"
    by blast
  have "fst (run_write (insert_author moment (in_name nameless) (str_or_null (in_email nameless))
        (str_or_null (in_bio nameless))) (blog\<lparr>faults := [True]\<rparr>)) = Inl (SqliteError SQLITE_IOERR)"
    using fault by (rule run_write_fault)
  with first have a1: "fst (createAuthor moment nameless (blog\<lparr>faults := [True]\<rparr>)) = Inr None"
    by blast
  have "fst (run_write (update_author moment (in_name nameless) (str_or_null (in_email nameless))
        (str_or_null (in_bio nameless)) (parse_id (IdStr ''2''))) (blog\<lparr>faults := [True]\<rparr>)) = Inl (SqliteError SQLITE_IOERR)"
    using fault by (rule run_write_fault)
  with first have a2: "fst (updateAuthor moment (IdStr ''2'') nameless (blog\<lparr>faults := [True]\<rparr>)) = Inr None"
    by blast
  have "fst (run_write (delete_author (parse_id (IdStr ''2''))) (blog\<lparr>faults := [True]\<rparr>)) = Inl (SqliteError SQLITE_IOERR)"
    using fault by (rule run_write_fault)
  with first have a3: "fst (deleteAuthor (IdStr ''2'') (blog\<lparr>faults := [True]\<rparr>)) = Inr False"
    by blast
  from first fault have reads: "fst (getAllPosts (blog\<lparr>faults := [True]\<rparr>)) = Inl (SqliteError SQLITE_IOERR)"
    "fst (getAuthorById (IdStr ''2'') (blog\<lparr>faults := [True]\<rparr>)) = Inl (SqliteError SQLITE_IOERR)"
    by blast+
  have reread: "fst (getPostById (IdNum 3) (blog\<lparr>posts := [hello_row, alphabet_row, draft_row 3 moment], posts_seq := 3,
          faults := [True]\<rparr>)) = Inl (SqliteError SQLITE_IOERR)"
    "fst (getPostById (IdStr ''2'') (blog\<lparr>posts := [hello_row, draft_row 2 ''2024-02-02 10:00:00''], faults := [True]\<rparr>)) = Inl (SqliteError SQLITE_IOERR)"
    "fst (getAuthorById (IdNum 3) (blog\<lparr>authors := [ada, bob, cy], authors_seq := 3, faults := [True]\<rparr>)) = Inl (SqliteError SQLITE_IOERR)"
    "fst (getAuthorById (IdStr ''2'') (blog\<lparr>authors := [ada, bob\<lparr>a_name := ''Cy'', a_email := None, a_updated_at := moment\<rparr>],
          faults := [True]\<rparr>)) = Inl (SqliteError SQLITE_IOERR)"
    unfolding getPostById_def getAuthorById_def by (rule run_query_fault, simp)+
  have "run_write (insert_post moment (in_title draft) (createSlug (in_title draft)) (in_excerpt draft)
        (sanitizeHtml plain_text (in_content draft) (sanitizeOptions plain_text))
        (num_or_null (in_author_id draft))) (blog\<lparr>faults := [False, True]\<rparr>)
      = (Inr 3, (blog\<lparr>posts := [hello_row, alphabet_row, draft_row 3 moment], posts_seq := 3,
          faults := [True]\<rparr>))"
    by code_simp
  with reread(1) mutations_catch_reads_raise [where lib = plain_text and now = moment
      and d = draft and st = "blog\<lparr>faults := [False, True]\<rparr>" and rowid = 3
      and e = "SqliteError SQLITE_IOERR"
      and ?st1.0 = "blog\<lparr>posts := [hello_row, alphabet_row, draft_row 3 moment], posts_seq := 3,
          faults := [True]\<rparr>"]
  have p4: "fst (createPost plain_text moment draft (blog\<lparr>faults := [False, True]\<rparr>)) = Inr None"
    by blast
  have "run_write (update_post moment (in_title draft) (createSlug (in_title draft)) (in_excerpt draft)
        (sanitizeHtml plain_text (in_content draft) (sanitizeOptions plain_text))
        (num_or_null (in_author_id draft)) (parse_id (IdStr ''2''))) (blog\<lparr>faults := [False, True]\<rparr>)
      = (Inr 1, (blog\<lparr>posts := [hello_row, draft_row 2 ''2024-02-02 10:00:00''], faults := [True]\<rparr>))" and "(1::nat) \<noteq> 0"
    by code_simp+
  with reread(2) mutations_catch_reads_raise [where lib = plain_text and now = moment
      and d = draft and i = "IdStr ''2''" and st = "blog\<lparr>faults := [False, True]\<rparr>"
      and changes = 1 and e = "SqliteError SQLITE_IOERR"
      and ?st1.0 = "blog\<lparr>posts := [hello_row, draft_row 2 ''2024-02-02 10:00:00''],
          faults := [True]\<rparr>"]
  have p5: "fst (updatePost plain_text moment (IdStr ''2'') draft (blog\<lparr>faults := [False, True]\<rparr>)) = Inr None"
    by blast
  have "run_write (insert_author moment (in_name nameless) (str_or_null (in_email nameless))
        (str_or_null (in_bio nameless))) (blog\<lparr>faults := [False, True]\<rparr>)
      = (Inr 3, (blog\<lparr>authors := [ada, bob, cy], authors_seq := 3, faults := [True]\<rparr>))"
    by code_simp
  with reread(3) mutations_catch_reads_raise [where now = moment and a = nameless
      and st = "blog\<lparr>faults := [False, True]\<rparr>" and rowid = 3
      and e = "SqliteError SQLITE_IOERR"
      and ?st1.0 = "blog\<lparr>authors := [ada, bob, cy], authors_seq := 3, faults := [True]\<rparr>"]
  have a4: "fst (createAuthor moment nameless (blog\<lparr>faults := [False, True]\<rparr>)) = Inr None"
    by blast
  have "run_write (update_author moment (in_name nameless) (str_or_null (in_email nameless))
        (str_or_null (in_bio nameless)) (parse_id (IdStr ''2''))) (blog\<lparr>faults := [False, True]\<rparr>)
      = (Inr 1, (blog\<lparr>authors := [ada, bob\<lparr>a_name := ''Cy'', a_email := None, a_updated_at := moment\<rparr>],
          faults := [True]\<rparr>))" and "(1::nat) \<noteq> 0"
    by code_simp+
  with reread(4) mutations_catch_reads_raise [where now = moment and a = nameless
      and i = "IdStr ''2''" and st = "blog\<lparr>faults := [False, True]\<rparr>" and changes = 1
      and e = "SqliteError SQLITE_IOERR"
      and ?st1.0 = "blog\<lparr>authors := [ada, bob\<lparr>a_name := ''Cy'', a_email := None, a_updated_at := moment\<rparr>],
          faults := [True]\<rparr>"]
  have a5: "fst (updateAuthor moment (IdStr ''2'') nameless (blog\<lparr>faults := [False, True]\<rparr>)) = Inr None"
    by blast
  from p1 p2 p3 a1 a2 a3 reads p4 p5 a4 a5 show ?thesis
    by (intro conjI)
qed

text \<open>
  A constraint violation is such an error: a second post whose title gives the slug of an
  existing post, and a second author with the email of an existing author, are answered
  with \<open>null\<close>, and the store stays as it was.
\<close>

lemma duplicate_slug_is_null:
  "createPost plain_text moment (draft\<lparr>in_title := ''Hello, World!''\<rparr>) blog = (Inr None, blog)"
  by code_simp

lemma duplicate_email_is_null:
  "createAuthor moment (nameless\<lparr>in_email := Some ''bob@example.org''\<rparr>) blog = (Inr None, blog)"
  by code_simp

text \<open>
  The two listing handlers have a \<open>try\<close>/\<open>catch\<close> of their own around the read and answer
  with status 500.
\<close>

lemma listing_handlers_answer_500:
  assumes "faults st = True # fs"
  shows "fst (public_index page_param st) = RenderError 500 ''Error loading blog posts''
    \<and> fst (admin_index search page_param st) = RenderError 500 ''Error loading posts''"
proof -
  from assms have "getAllPosts st = (Inl (SqliteError SQLITE_IOERR), st\<lparr>faults := fs\<rparr>)"
    and "\<And>q. searchPosts q st = (Inl (SqliteError SQLITE_IOERR), st\<lparr>faults := fs\<rparr>)"
    unfolding getAllPosts_def searchPosts_def by (rule run_query_fault_state)+
  then show ?thesis
    by (simp add: public_index_def admin_index_def Let_def)
qed

text \<open>
  As the claim is written, with reads and mutations alike, it fails: a read on a store that
  cannot be read raises.
\<close>

theorem read_raises_counterexample:
  "fst (getAllPosts (blog\<lparr>faults := [True]\<rparr>)) = Inl (SqliteError SQLITE_IOERR)
   \<and> fst (getAllPosts (blog\<lparr>faults := [True]\<rparr>)) \<noteq> Inr []"
  by (simp add: getAllPosts_def run_query_fault)

section \<open>Deleting an author\<close>

lemma distinct_key_filter_length:
  "distinct (map f xs) \<Longrightarrow> k \<in> set (map f xs) \<Longrightarrow>
     length (filter (\<lambda>x. f x \<noteq> k) xs) + 1 = length xs"
proof (induction xs)
  case Nil
  then show ?case by simp
next
  case (Cons x xs)
  show ?case
  proof (cases "f x = k")
    case True
    with Cons.prems have "k \<notin> set (map f xs)"
      by auto
    then have "filter (\<lambda>x. f x \<noteq> k) xs = xs"
      by (auto simp: filter_id_conv)
    with True show ?thesis by simp
  next
    case False
    with Cons show ?thesis by auto
  qed
qed

lemma example_delete:
  "deleteAuthor (IdStr ''1'') blog
     = (Inr True, blog\<lparr>authors := [bob], posts := [hello_row\<lparr>p_author_id := None\<rparr>, alphabet_row]\<rparr>)"
  by code_simp

text \<open>
  Claim C4. A successful \<open>deleteAuthor(id)\<close> returns \<open>true\<close> and removes exactly the author
  row with that identifier. No post is deleted: the posts table keeps its rows in place,
  each post that referenced the author has its author reference \<open>NULL\<close>, and every other
  post is as it was. The identifiers of authors are a primary key, so they are distinct.
\<close>

theorem deleteAuthor_orphans_posts:
  assumes "distinct (map a_id (authors st))" and "deleteAuthor i st = (Inr True, st')"
  shows "\<exists>k. parse_id i = Some k \<and> k \<in> set (map a_id (authors st))
      \<and> authors st' = filter (\<lambda>a. a_id a \<noteq> k) (authors st)
      \<and> length (authors st') + 1 = length (authors st)
      \<and> posts st' = map (\<lambda>r. if p_author_id r = Some k then r\<lparr>p_author_id := None\<rparr> else r)
            (posts st)
      \<and> length (posts st') = length (posts st)
      \<and> map p_id (posts st') = map p_id (posts st)
      \<and> (\<forall>r \<in> set (posts st). p_author_id r = Some k \<longrightarrow> r\<lparr>p_author_id := None\<rparr> \<in> set (posts st'))
      \<and> (\<forall>r \<in> set (posts st). p_author_id r \<noteq> Some k \<longrightarrow> r \<in> set (posts st'))
      \<and> (\<forall>r \<in> set (posts st'). p_author_id r \<noteq> Some k)"
proof -
  from deleteAuthor_result [OF assms(2)] obtain k where k: "parse_id i = Some k"
    "k \<in> set (map a_id (authors st))"
    "authors st' = filter (\<lambda>a. a_id a \<noteq> k) (authors st)"
    "posts st' = map (\<lambda>r. if p_author_id r = Some k then r\<lparr>p_author_id := None\<rparr> else r)
            (posts st)"
    by blast
  have one: "length (authors st') + 1 = length (authors st)"
    unfolding k(3) using assms(1) k(2) by (rule distinct_key_filter_length)
  have len: "length (posts st') = length (posts st)"
    unfolding k(4) by simp
  have ids: "map p_id (posts st') = map p_id (posts st)"
    unfolding k(4) by (rule map_key_unchanged) simp
  have cleared: "\<forall>r \<in> set (posts st). p_author_id r = Some k \<longrightarrow>
      r\<lparr>p_author_id := None\<rparr> \<in> set (posts st')"
  proof (intro ballI impI)
    fix r
    assume "r \<in> set (posts st)" and "p_author_id r = Some k"
    then have "(if p_author_id r = Some k then r\<lparr>p_author_id := None\<rparr> else r) \<in> set (posts st')"
      unfolding k(4) set_map by (intro imageI)
    with \<open>p_author_id r = Some k\<close> show "r\<lparr>p_author_id := None\<rparr> \<in> set (posts st')"
      by simp
  qed
  have kept: "\<forall>r \<in> set (posts st). p_author_id r \<noteq> Some k \<longrightarrow> r \<in> set (posts st')"
  proof (intro ballI impI)
    fix r
    assume "r \<in> set (posts st)" and other: "p_author_id r \<noteq> Some k"
    then have "(if p_author_id r = Some k then r\<lparr>p_author_id := None\<rparr> else r) \<in> set (posts st')"
      unfolding k(4) set_map by (intro imageI)
    with other show "r \<in> set (posts st')"
      by simp
  qed
  have none: "\<forall>r \<in> set (posts st'). p_author_id r \<noteq> Some k"
    unfolding k(4) by auto
  from k one len ids cleared kept none show ?thesis
    by (intro exI [of _ k] conjI)
qed

theorem deleteAuthor_orphans_posts_witness:
  "deleteAuthor (IdStr ''1'') blog
     = (Inr True, blog\<lparr>authors := [bob], posts := [hello_row\<lparr>p_author_id := None\<rparr>, alphabet_row]\<rparr>)
   \<and> distinct (map a_id (authors blog))
   \<and> p_author_id hello_row = Some 1
   \<and> (\<exists>k. parse_id (IdStr ''1'') = Some k \<and> k \<in> set (map a_id (authors blog))
      \<and> authors (blog\<lparr>authors := [bob], posts := [hello_row\<lparr>p_author_id := None\<rparr>, alphabet_row]\<rparr>)
          = filter (\<lambda>a. a_id a \<noteq> k) (authors blog)
      \<and> length (posts (blog\<lparr>authors := [bob], posts := [hello_row\<lparr>p_author_id := None\<rparr>, alphabet_row]\<rparr>))
          = length (posts blog))"
proof -
  have keys: "distinct (map a_id (authors blog))"
    by (simp add: blog_def ada_def bob_def)
  from deleteAuthor_orphans_posts [OF keys example_delete]
  have "\<exists>k. parse_id (IdStr ''1'') = Some k \<and> k \<in> set (map a_id (authors blog))
      \<and> authors (blog\<lparr>authors := [bob], posts := [hello_row\<lparr>p_author_id := None\<rparr>, alphabet_row]\<rparr>)
          = filter (\<lambda>a. a_id a \<noteq> k) (authors blog)
      \<and> length (posts (blog\<lparr>authors := [bob], posts := [hello_row\<lparr>p_author_id := None\<rparr>, alphabet_row]\<rparr>))
          = length (posts blog)"
    by (elim exE conjE) (intro exI conjI)
  moreover have "p_author_id hello_row = Some 1"
    by (simp add: hello_row_def)
  ultimately show ?thesis
    using keys example_delete by (intro conjI)
qed

text \<open>
  The hypothesis of the theorem holds in every store the repository can build: the empty
  store has distinct author identifiers, and every operation keeps them distinct.
\<close>

lemma author_ids_stay_distinct:
  assumes "distinct (map a_id (authors st))"
  shows "distinct (map a_id (authors (snd (createAuthor now a st))))
    \<and> distinct (map a_id (authors (snd (updateAuthor now i a st))))
    \<and> distinct (map a_id (authors (snd (deleteAuthor i st))))
    \<and> distinct (map a_id (authors (snd (createPost lib now d st))))
    \<and> distinct (map a_id (authors (snd (updatePost lib now i d st))))
    \<and> distinct (map a_id (authors (snd (deletePost i st))))"
proof (intro conjI)
  from createAuthor_effect [of now a st]
  consider "authors (snd (createAuthor now a st)) = authors st"
    | row where "authors (snd (createAuthor now a st)) = authors st @ [row]"
      "a_id row \<notin> set (map a_id (authors st))"
    by blast
  then show "distinct (map a_id (authors (snd (createAuthor now a st))))"
  proof cases
    case 1
    with assms show ?thesis by simp
  next
    case 2
    with assms show ?thesis by simp
  qed
  from updateAuthor_effect [of now i a st]
  consider "authors (snd (updateAuthor now i a st)) = authors st"
    | k where "authors (snd (updateAuthor now i a st)) = map (\<lambda>r. if a_id r = k
            then r\<lparr>a_name := in_name a, a_email := str_or_null (in_email a),
                   a_bio := str_or_null (in_bio a), a_updated_at := now\<rparr>
            else r) (authors st)"
    by blast
  then show "distinct (map a_id (authors (snd (updateAuthor now i a st))))"
  proof cases
    case 1
    with assms show ?thesis by simp
  next
    case 2
    have "map a_id (authors (snd (updateAuthor now i a st))) = map a_id (authors st)"
      unfolding 2 by (rule map_key_unchanged) simp
    with assms show ?thesis by simp
  qed
  from deleteAuthor_effect [of i st] obtain P
    where "authors (snd (deleteAuthor i st)) = filter P (authors st)"
    by blast
  with assms show "distinct (map a_id (authors (snd (deleteAuthor i st))))"
    by (simp add: distinct_map_filter)
  from createPost_effect [of lib now d st] assms
  show "distinct (map a_id (authors (snd (createPost lib now d st))))"
    by simp
  from updatePost_effect [of lib now i d st] assms
  show "distinct (map a_id (authors (snd (updatePost lib now i d st))))"
    by simp
  from deletePost_effect [of i st] assms
  show "distinct (map a_id (authors (snd (deletePost i st))))"
    by simp
qed

lemma empty_store_ids_distinct: "distinct (map a_id (authors empty_store))"
  by (simp add: empty_store_def)

section \<open>Authors without an email\<close>

lemma createAuthor_null_email_succeeds:
  assumes "faults st = []" and "str_or_null (in_email d) = None"
  shows "\<exists>a st'. createAuthor now d st = (Inr (Some a), st') \<and> faults st' = []"
proof -
  define rowid where "rowid = next_rowid (authors_seq st) (map a_id (authors st))"
  define row where "row = \<lparr>a_id = rowid, a_name = in_name d, a_email = None,
      a_bio = str_or_null (in_bio d), a_created_at = now, a_updated_at = now\<rparr>"
  define st1 where "st1 = st\<lparr>authors := authors st @ [row], authors_seq := rowid\<rparr>"
  have ins: "insert_author now (in_name d) (str_or_null (in_email d)) (str_or_null (in_bio d)) st
      = Inr (rowid, st1)"
    by (simp add: insert_author_def email_taken_def Let_def assms(2) rowid_def row_def st1_def)
  have w: "run_write (insert_author now (in_name d) (str_or_null (in_email d))
      (str_or_null (in_bio d))) st = (Inr rowid, st1)"
    by (simp add: run_write_def next_fault_no_faults [OF assms(1)] ins)
  have f1: "faults st1 = []"
    by (simp add: st1_def assms(1))
  have "row \<in> set (filter (\<lambda>r. id_is (Some rowid) (a_id r)) (authors st1))"
    by (simp add: st1_def row_def id_is_Some)
  then obtain a where a: "first_row (filter (\<lambda>r. id_is (Some rowid) (a_id r)) (authors st1)) = Some a"
    by (cases "filter (\<lambda>r. id_is (Some rowid) (a_id r)) (authors st1)") (auto simp: first_row_def)
  have g: "getAuthorById (IdNum rowid) st1 = (Inr (Some a), st1)"
    by (simp add: getAuthorById_def run_query_def next_fault_no_faults [OF f1] a)
  have "createAuthor now d st = (Inr (Some a), st1)"
    by (simp add: createAuthor_def try_catch_def and_then_def w g)
  with f1 show ?thesis by blast
qed

lemma updateAuthor_null_email_succeeds:
  assumes "faults st = []" and "str_or_null (in_email d) = None"
    and "parse_id i = Some k" and "k \<in> set (map a_id (authors st))"
  shows "\<exists>b st'. updateAuthor now i d st = (Inr (Some b), st') \<and> faults st' = []"
proof -
  define changes where "changes = length (filter (\<lambda>r. a_id r = k) (authors st))"
  define st1 where "st1 = st\<lparr>authors := map (\<lambda>r. if a_id r = k
        then r\<lparr>a_name := in_name d, a_email := None,
               a_bio := str_or_null (in_bio d), a_updated_at := now\<rparr>
        else r) (authors st)\<rparr>"
  from assms(4) have "filter (\<lambda>r. a_id r = k) (authors st) \<noteq> []"
    by (auto simp: filter_empty_conv)
  then have pos: "changes \<noteq> 0"
    by (simp add: changes_def)
  have upd: "update_author now (in_name d) (str_or_null (in_email d)) (str_or_null (in_bio d))
      (parse_id i) st = Inr (changes, st1)"
    using pos
    by (simp add: update_author_def Let_def email_taken_def id_is_Some assms(2,3)
        changes_def st1_def)
  have w: "run_write (update_author now (in_name d) (str_or_null (in_email d))
      (str_or_null (in_bio d)) (parse_id i)) st = (Inr changes, st1)"
    by (simp add: run_write_def next_fault_no_faults [OF assms(1)] upd)
  have f1: "faults st1 = []"
    by (simp add: st1_def assms(1))
  have rows: "authors st1 = map (\<lambda>r. if a_id r = k
        then r\<lparr>a_name := in_name d, a_email := None,
               a_bio := str_or_null (in_bio d), a_updated_at := now\<rparr>
        else r) (authors st)"
    by (simp add: st1_def)
  have "map a_id (authors st1) = map a_id (authors st)"
    unfolding rows by (rule map_key_unchanged) simp
  with assms(4) have "k \<in> set (map a_id (authors st1))"
    by simp
  then have "filter (\<lambda>r. id_is (Some k) (a_id r)) (authors st1) \<noteq> []"
    by (auto simp: filter_empty_conv id_is_Some)
  then obtain b where b: "first_row (filter (\<lambda>r. id_is (Some k) (a_id r)) (authors st1)) = Some b"
    by (cases "filter (\<lambda>r. id_is (Some k) (a_id r)) (authors st1)") (auto simp: first_row_def)
  have g: "getAuthorById i st1 = (Inr (Some b), st1)"
    by (simp add: getAuthorById_def run_query_def next_fault_no_faults [OF f1] assms(3) b)
  have "updateAuthor now i d st = (Inr (Some b), st1)"
    by (simp add: updateAuthor_def try_catch_def and_then_def w g pos)
  with f1 show ?thesis by blast
qed

lemma example_nameless:
  "createAuthor moment nameless blog
     = (Inr (Some cy), blog\<lparr>authors := [ada, bob, cy], authors_seq := 3\<rparr>)"
  by code_simp

lemma example_email_removed:
  "updateAuthor moment (IdStr ''2'') nameless blog
     = (Inr (Some (bob\<lparr>a_name := ''Cy'', a_email := None, a_updated_at := moment\<rparr>)),
        blog\<lparr>authors := [ada, bob\<lparr>a_name := ''Cy'', a_email := None, a_updated_at := moment\<rparr>]\<rparr>)"
  by code_simp

text \<open>
  Claim C9. When the email of the input is absent or the empty string, \<open>createAuthor\<close> and
  \<open>updateAuthor\<close> store \<open>NULL\<close>: the returned author and its row have no email. Two authors
  created one after the other with such an input are both created, with different
  identifiers, whenever the store itself does not fail: \<open>UNIQUE\<close> does not apply to \<open>NULL\<close>.
  On such a store \<open>updateAuthor\<close> with such an input succeeds for every author there is,
  whatever the emails of the other authors are; it returns the author with that identifier
  and no email, and in the table exactly the rows with that identifier have changed: they
  carry the new name and biography, and \<open>NULL\<close> for the email.
\<close>

theorem empty_email_is_null:
  assumes "in_email d = None \<or> in_email d = Some []"
  shows "(createAuthor now d st = (Inr (Some a), st') \<longrightarrow>
        a_email a = None \<and> a \<in> set (authors st')
        \<and> (\<forall>r \<in> set (authors st'). a_id r = a_id a \<longrightarrow> a_email r = None))
    \<and> (updateAuthor now i d st = (Inr (Some b), st'') \<longrightarrow>
        a_email b = None \<and> a_id b \<in> set (map a_id (authors st''))
        \<and> (\<forall>r \<in> set (authors st''). a_id r = a_id b \<longrightarrow> a_email r = None))
    \<and> ((in_email d' = None \<or> in_email d' = Some []) \<and> faults st = [] \<longrightarrow>
        (\<exists>a1 a2 st1 st2.
            createAuthor now d st = (Inr (Some a1), st1)
            \<and> createAuthor now' d' st1 = (Inr (Some a2), st2)
            \<and> a_email a1 = None \<and> a_email a2 = None \<and> a_id a1 \<noteq> a_id a2
            \<and> authors st2 = authors st @ [a1, a2]))
    \<and> (faults st = [] \<and> parse_id i = Some k \<and> k \<in> set (map a_id (authors st)) \<longrightarrow>
        (\<exists>b' st3.
            updateAuthor now i d st = (Inr (Some b'), st3)
            \<and> a_id b' = k \<and> a_name b' = in_name d \<and> a_email b' = None
            \<and> a_bio b' = str_or_null (in_bio d)
            \<and> authors st3 = map (\<lambda>r. if a_id r = k
                  then r\<lparr>a_name := in_name d, a_email := None,
                         a_bio := str_or_null (in_bio d), a_updated_at := now\<rparr>
                  else r) (authors st)))"
proof (intro conjI impI)
  from assms have null: "str_or_null (in_email d) = None"
    by auto
  {
    assume "createAuthor now d st = (Inr (Some a), st')"
    from createAuthor_result [OF this] null
    have r: "authors st' = authors st @ [a]" "a_id a \<notin> set (map a_id (authors st))"
      "a_email a = None"
      by simp_all
    show "a_email a = None"
      by (rule r(3))
    show "a \<in> set (authors st')"
      by (simp add: r(1))
    show "\<forall>r \<in> set (authors st'). a_id r = a_id a \<longrightarrow> a_email r = None"
    proof (intro ballI impI)
      fix x
      assume x: "x \<in> set (authors st')" "a_id x = a_id a"
      have "x \<notin> set (authors st)"
      proof
        assume "x \<in> set (authors st)"
        moreover from x(2) r(2) have "a_id x \<notin> set (map a_id (authors st))"
          by simp
        ultimately show False
          by (rule fresh_id_not_member)
      qed
      with x(1) r(1) have "x = a"
        by simp
      with r(3) show "a_email x = None"
        by simp
    qed
  }
  {
    assume "updateAuthor now i d st = (Inr (Some b), st'')"
    from updateAuthor_result [OF this] obtain k where k0: "k \<in> set (map a_id (authors st))"
      "a_id b = k"
      "authors st'' = map (\<lambda>r. if a_id r = k
            then r\<lparr>a_name := in_name d, a_email := str_or_null (in_email d),
                   a_bio := str_or_null (in_bio d), a_updated_at := now\<rparr>
            else r) (authors st)"
      "a_email b = str_or_null (in_email d)"
      by blast
    note k = k0 [unfolded null]
    show "a_email b = None"
      by (rule k(4))
    have "map a_id (authors st'') = map a_id (authors st)"
      unfolding k(3) by (rule map_key_unchanged) simp
    with k(1,2) show "a_id b \<in> set (map a_id (authors st''))"
      by simp
    show "\<forall>r \<in> set (authors st''). a_id r = a_id b \<longrightarrow> a_email r = None"
    proof (intro ballI impI)
      fix x
      assume x: "x \<in> set (authors st'')" "a_id x = a_id b"
      from x(1) obtain x0 where "x0 \<in> set (authors st)" and x0: "x = (if a_id x0 = k
            then x0\<lparr>a_name := in_name d, a_email := None,
                   a_bio := str_or_null (in_bio d), a_updated_at := now\<rparr>
            else x0)"
        unfolding k(3) by auto
      from x0 x(2) k(2) have "a_id x0 = k"
        by (cases "a_id x0 = k") simp_all
      with x0 show "a_email x = None"
        by simp
    qed
  }
  {
    assume "(in_email d' = None \<or> in_email d' = Some []) \<and> faults st = []"
    then have null': "str_or_null (in_email d') = None" and quiet: "faults st = []"
      by auto
    from createAuthor_null_email_succeeds [OF quiet null] obtain a1 st1
      where c1: "createAuthor now d st = (Inr (Some a1), st1)" and quiet1: "faults st1 = []"
      by blast
    from createAuthor_null_email_succeeds [OF quiet1 null'] obtain a2 st2
      where c2: "createAuthor now' d' st1 = (Inr (Some a2), st2)"
      by blast
    from createAuthor_result [OF c1] null
    have r1: "authors st1 = authors st @ [a1]" "a_email a1 = None"
      by simp_all
    from createAuthor_result [OF c2] null'
    have r2: "authors st2 = authors st1 @ [a2]" "a_id a2 \<notin> set (map a_id (authors st1))"
      "a_email a2 = None"
      by simp_all
    from r1(1) r2(2) have "a_id a1 \<noteq> a_id a2"
      by auto
    with c1 c2 r1 r2 show "\<exists>a1 a2 st1 st2.
            createAuthor now d st = (Inr (Some a1), st1)
            \<and> createAuthor now' d' st1 = (Inr (Some a2), st2)
            \<and> a_email a1 = None \<and> a_email a2 = None \<and> a_id a1 \<noteq> a_id a2
            \<and> authors st2 = authors st @ [a1, a2]"
      by (intro exI [of _ a1] exI [of _ a2] exI [of _ st1] exI [of _ st2]) simp
  }
  {
    assume "faults st = [] \<and> parse_id i = Some k \<and> k \<in> set (map a_id (authors st))"
    then have quiet: "faults st = []" and param: "parse_id i = Some k"
      and known: "k \<in> set (map a_id (authors st))"
      by simp_all
    from updateAuthor_null_email_succeeds [OF quiet null param known] obtain b' st3
      where u: "updateAuthor now i d st = (Inr (Some b'), st3)"
      by blast
    from updateAuthor_result [OF u] obtain k' where k0: "parse_id i = Some k'"
      "a_id b' = k'"
      "authors st3 = map (\<lambda>r. if a_id r = k'
            then r\<lparr>a_name := in_name d, a_email := str_or_null (in_email d),
                   a_bio := str_or_null (in_bio d), a_updated_at := now\<rparr>
            else r) (authors st)"
      "a_name b' = in_name d"
      "a_email b' = str_or_null (in_email d)"
      "a_bio b' = str_or_null (in_bio d)"
      by blast
    from k0(1) param have same: "k' = k"
      by simp
    note r = k0 [unfolded null same]
    from u r(2-6) show "\<exists>b' st3.
            updateAuthor now i d st = (Inr (Some b'), st3)
            \<and> a_id b' = k \<and> a_name b' = in_name d \<and> a_email b' = None
            \<and> a_bio b' = str_or_null (in_bio d)
            \<and> authors st3 = map (\<lambda>r. if a_id r = k
                  then r\<lparr>a_name := in_name d, a_email := None,
                         a_bio := str_or_null (in_bio d), a_updated_at := now\<rparr>
                  else r) (authors st)"
      by (intro exI [of _ b'] exI [of _ st3] conjI)
  }
qed


theorem empty_email_is_null_witness:
  "in_email nameless = Some []
   \<and> createAuthor moment nameless blog
     = (Inr (Some cy), blog\<lparr>authors := [ada, bob, cy], authors_seq := 3\<rparr>)
   \<and> a_email cy = None
   \<and> (\<exists>a1 a2 st1 st2.
        createAuthor moment nameless blog = (Inr (Some a1), st1)
        \<and> createAuthor moment nameless st1 = (Inr (Some a2), st2)
        \<and> a_email a1 = None \<and> a_email a2 = None \<and> a_id a1 \<noteq> a_id a2
        \<and> authors st2 = authors blog @ [a1, a2])
   \<and> a_email bob = Some ''bob@example.org''
   \<and> updateAuthor moment (IdStr ''2'') nameless blog
     = (Inr (Some (bob\<lparr>a_name := ''Cy'', a_email := None, a_updated_at := moment\<rparr>)),
        blog\<lparr>authors := [ada, bob\<lparr>a_name := ''Cy'', a_email := None, a_updated_at := moment\<rparr>]\<rparr>)
   \<and> a_email (bob\<lparr>a_name := ''Cy'', a_email := None, a_updated_at := moment\<rparr>) = None
   \<and> (\<exists>b' st3.
        updateAuthor moment (IdStr ''2'') nameless blog = (Inr (Some b'), st3)
        \<and> a_id b' = 2 \<and> a_name b' = ''Cy'' \<and> a_email b' = None
        \<and> authors st3 = [ada, bob\<lparr>a_name := ''Cy'', a_email := None, a_updated_at := moment\<rparr>])"
proof -
  have empty: "in_email nameless = None \<or> in_email nameless = Some []"
    and quiet: "faults blog = []"
    by (simp_all add: nameless_def blog_def)
  note claim = empty_email_is_null [OF empty, where now = moment and st = blog and a = cy
      and st' = "blog\<lparr>authors := [ada, bob, cy], authors_seq := 3\<rparr>"
      and d' = nameless and now' = moment and i = "IdStr ''2''" and k = 2
      and b = "bob\<lparr>a_name := ''Cy'', a_email := None, a_updated_at := moment\<rparr>"
      and st'' = "blog\<lparr>authors :=
          [ada, bob\<lparr>a_name := ''Cy'', a_email := None, a_updated_at := moment\<rparr>]\<rparr>"]
  from claim [THEN conjunct1, THEN mp, OF example_nameless]
  have null: "a_email cy = None"
    by (rule conjunct1)
  from claim [THEN conjunct2, THEN conjunct2, THEN conjunct1, THEN mp, OF conjI, OF empty quiet]
  have twice: "\<exists>a1 a2 st1 st2.
        createAuthor moment nameless blog = (Inr (Some a1), st1)
        \<and> createAuthor moment nameless st1 = (Inr (Some a2), st2)
        \<and> a_email a1 = None \<and> a_email a2 = None \<and> a_id a1 \<noteq> a_id a2
        \<and> authors st2 = authors blog @ [a1, a2]" .
  have before: "a_email bob = Some ''bob@example.org''"
    by code_simp
  note changed = claim [THEN conjunct2, THEN conjunct1, THEN mp, OF example_email_removed]
  from changed have removed:
    "a_email (bob\<lparr>a_name := ''Cy'', a_email := None, a_updated_at := moment\<rparr>) = None"
    by (rule conjunct1)
  have param: "parse_id (IdStr ''2'') = Some 2" and known: "2 \<in> set (map a_id (authors blog))"
    by code_simp+
  have table: "map (\<lambda>r. if a_id r = 2
                  then r\<lparr>a_name := ''Cy'', a_email := None,
                         a_bio := str_or_null (in_bio nameless), a_updated_at := moment\<rparr>
                  else r) (authors blog)
      = [ada, bob\<lparr>a_name := ''Cy'', a_email := None, a_updated_at := moment\<rparr>]"
    and name: "in_name nameless = ''Cy''"
    by code_simp+
  from claim [THEN conjunct2, THEN conjunct2, THEN conjunct2, THEN mp, OF conjI, OF quiet conjI,
      OF param known]
  have update: "\<exists>b' st3.
        updateAuthor moment (IdStr ''2'') nameless blog = (Inr (Some b'), st3)
        \<and> a_id b' = 2 \<and> a_name b' = ''Cy'' \<and> a_email b' = None
        \<and> authors st3 = [ada, bob\<lparr>a_name := ''Cy'', a_email := None, a_updated_at := moment\<rparr>]"
    unfolding name table by blast
  have "in_email nameless = Some []"
    by (simp add: nameless_def)
  with example_nameless null twice before example_email_removed removed update
  show ?thesis
    by (intro conjI)
qed

section \<open>Pagination\<close>

lemma ceil_div_page_count: "ceil_div (int P) L = page_count P L"
  unfolding ceil_div_def page_count_def
  using ceiling_divide_eq_div [where ?'a = real, of "int P" L] by simp

lemma interval_shift: "(+) a ` {..<b - a} = {i. a \<le> i \<and> i < (b::nat)}"
proof (rule set_eqI)
  fix x
  show "x \<in> (+) a ` {..<b - a} \<longleftrightarrow> x \<in> {i. a \<le> i \<and> i < b}"
  proof
    assume "x \<in> (+) a ` {..<b - a}"
    then show "x \<in> {i. a \<le> i \<and> i < b}" by auto
  next
    assume "x \<in> {i. a \<le> i \<and> i < b}"
    then have "x = a + (x - a)" and "x - a \<in> {..<b - a}"
      by auto
    then show "x \<in> (+) a ` {..<b - a}"
      by (rule image_eqI)
  qed
qed

lemma nths_interval: "nths xs {i. a \<le> i \<and> i < b} = take (b - a) (drop a xs)"
  using nths_drop [of a xs "{..<b - a}"] by (simp add: interval_shift)

lemma slice_index_range:
  assumes "0 \<le> a" and "a \<le> b"
  shows "slice xs a b = index_range xs a b"
proof -
  have "{i. a \<le> int i \<and> int i < b} = {i. nat a \<le> i \<and> i < nat b}"
    using assms by auto
  then have spec: "index_range xs a b = take (nat b - nat a) (drop (nat a) xs)"
    by (simp add: index_range_def nths_interval)
  show ?thesis
  proof (cases "a \<le> int (length xs)")
    case True
    with assms have "slice xs a b = take (nat (min b (int (length xs)) - a)) (drop (nat a) xs)"
      by (simp add: slice_def js_index_def Let_def min_def)
    also have "\<dots> = take (nat b - nat a) (drop (nat a) xs)"
      using assms True by (cases "b \<le> int (length xs)") (simp_all add: min_def nat_diff_distrib')
    finally show ?thesis by (simp add: spec)
  next
    case False
    with assms show ?thesis
      by (simp add: spec slice_def js_index_def Let_def min_def)
  qed
qed


lemma index_range_before_start: "hi \<le> 0 \<Longrightarrow> index_range xs lo hi = []"
proof -
  assume "hi \<le> 0"
  then have "{i. lo \<le> int i \<and> int i < hi} = {}"
    by auto
  then show ?thesis
    by (simp only: index_range_def nths_empty)
qed

lemma page_slice:
  assumes "1 \<le> k" and "0 < L"
  shows "slice xs ((k - 1) * L) ((k - 1) * L + L) = index_range xs ((k - 1) * L) (k * L)"
proof -
  from assms have "0 \<le> (k - 1) * L" and "(k - 1) * L \<le> (k - 1) * L + L"
    by simp_all
  then have "slice xs ((k - 1) * L) ((k - 1) * L + L)
      = index_range xs ((k - 1) * L) ((k - 1) * L + L)"
    by (rule slice_index_range)
  moreover have "(k - 1) * L + L = k * L"
    by (simp add: algebra_simps)
  ultimately show ?thesis
    by (simp only:)
qed

lemma public_index_page:
  assumes "1 \<le> page_of page_param" and "getAllPosts st = (Inr records, st')"
  shows "public_index page_param st
    = (Render ''posts/index.njk'' (page_view 6 None records (page_of page_param)), st')"
  using assms(2) page_slice [OF assms(1), of 6 records]
  by (simp add: public_index_def Let_def page_view_def ceil_div_page_count)

lemma admin_index_page:
  assumes "1 \<le> page_of page_param" and "search = None \<or> search = Some []"
    and "getAllPosts st = (Inr records, st')"
  shows "admin_index search page_param st
    = (Render ''admin/posts/index.njk'' (page_view 10 (Some []) records (page_of page_param)), st')"
proof -
  from assms(2) have "str_or_null search = None"
    by auto
  with assms(3) page_slice [OF assms(1), of 10 records] show ?thesis
    by (simp add: admin_index_def Let_def page_view_def ceil_div_page_count)
qed

lemma admin_index_search_page:
  assumes "1 \<le> page_of page_param" and "query \<noteq> []"
    and "searchPosts query st = (Inr found, st')"
  shows "admin_index (Some query) page_param st
    = (Render ''admin/posts/index.njk'' (page_view 10 (Some query) found (page_of page_param)), st')"
proof -
  from assms(2) have "str_or_null (Some query) = Some query"
    by simp
  with assms(2,3) page_slice [OF assms(1), of 10 found] show ?thesis
    by (simp add: admin_index_def Let_def page_view_def ceil_div_page_count)
qed

text \<open>
  Claim C5, as the code has it. The page \<open>k\<close> of a listing is the \<open>page\<close> parameter read by
  \<open>parseInt\<close>, and 1 when the parameter is absent, is not a number or is 0. For \<open>k\<close> from 1 on,
  the handler loads the whole result (the search result when the admin list has a query,
  all posts otherwise) and shows the records \<open>[(k-1)L, kL)\<close> of it, with \<open>ceil(P/L)\<close> pages,
  a previous page iff \<open>k > 1\<close> and a next page iff \<open>k < ceil(P/L)\<close>; \<open>L\<close> is 6 in the public
  list and 10 in the admin list.
\<close>

theorem listing_pages:
  assumes "1 \<le> page_of page_param"
  shows "(getAllPosts st = (Inr records, st') \<longrightarrow>
        public_index page_param st
          = (Render ''posts/index.njk'' (page_view 6 None records (page_of page_param)), st')
        \<and> admin_index None page_param st
          = (Render ''admin/posts/index.njk''
               (page_view 10 (Some []) records (page_of page_param)), st')
        \<and> admin_index (Some []) page_param st
          = (Render ''admin/posts/index.njk''
               (page_view 10 (Some []) records (page_of page_param)), st'))
    \<and> (query \<noteq> [] \<and> searchPosts query st = (Inr found, st'') \<longrightarrow>
        admin_index (Some query) page_param st
          = (Render ''admin/posts/index.njk''
               (page_view 10 (Some query) found (page_of page_param)), st''))
    \<and> page_of None = 1
    \<and> (parseInt s = None \<or> parseInt s = Some 0 \<longrightarrow> page_of (Some s) = 1)
    \<and> (parseInt s = Some n \<and> n \<noteq> 0 \<longrightarrow> page_of (Some s) = n)"
proof (intro conjI impI)
  assume all: "getAllPosts st = (Inr records, st')"
  show "public_index page_param st
      = (Render ''posts/index.njk'' (page_view 6 None records (page_of page_param)), st')"
    using assms all by (rule public_index_page)
  show "admin_index None page_param st
      = (Render ''admin/posts/index.njk'' (page_view 10 (Some []) records (page_of page_param)), st')"
    using assms _ all by (rule admin_index_page) simp
  show "admin_index (Some []) page_param st
      = (Render ''admin/posts/index.njk'' (page_view 10 (Some []) records (page_of page_param)), st')"
    using assms _ all by (rule admin_index_page) simp
next
  assume "query \<noteq> [] \<and> searchPosts query st = (Inr found, st'')"
  then have "query \<noteq> []" and "searchPosts query st = (Inr found, st'')"
    by simp_all
  with assms show "admin_index (Some query) page_param st
      = (Render ''admin/posts/index.njk'' (page_view 10 (Some query) found (page_of page_param)), st'')"
    by (rule admin_index_search_page)
next
  show "page_of None = 1"
    by (simp add: page_of_def)
next
  assume "parseInt s = None \<or> parseInt s = Some 0"
  then show "page_of (Some s) = 1"
    by (auto simp: page_of_def)
next
  assume "parseInt s = Some n \<and> n \<noteq> 0"
  then show "page_of (Some s) = n"
    by (simp add: page_of_def)
qed

lemma page_one: "page_of (Some ''1'') = 1" and page_zero: "page_of (Some ''0'') = 1"
  and page_minus_one: "page_of (Some ''-1'') = - 1" and parse_zero: "parseInt ''0'' = Some 0"
  by code_simp+

lemma two_records_first_page: "shown (page_view 6 None [x, y] 1) = [x, y]"
  using page_slice [of 1 6 "[x, y]"]
  by (simp add: page_view_def slice_def js_index_def)

lemma two_records_page_count: "page_count (length [x, y]) 6 = 1"
  using ceil_div_page_count [of "length [x, y]" 6] by (simp add: ceil_div_def)

theorem listing_pages_witness:
  "public_index (Some ''1'') blog
     = (Render ''posts/index.njk'' (page_view 6 None [alphabet_post, hello_post] 1), blog)
   \<and> shown (page_view 6 None [alphabet_post, hello_post] 1) = [alphabet_post, hello_post]
   \<and> totalPages (page_view 6 None [alphabet_post, hello_post] 1) = 1
   \<and> hasPrevious (page_view 6 None [alphabet_post, hello_post] 1) = False
   \<and> hasNext (page_view 6 None [alphabet_post, hello_post] 1) = False"
proof -
  have k: "1 \<le> page_of (Some ''1'')"
    by (simp add: page_one)
  from listing_pages [OF k, THEN conjunct1, THEN mp, OF blog_posts, THEN conjunct1]
  have "public_index (Some ''1'') blog
     = (Render ''posts/index.njk'' (page_view 6 None [alphabet_post, hello_post] 1), blog)"
    by (simp only: page_one)
  moreover have "totalPages (page_view 6 None [alphabet_post, hello_post] 1) = 1"
    "hasPrevious (page_view 6 None [alphabet_post, hello_post] 1) = False"
    "hasNext (page_view 6 None [alphabet_post, hello_post] 1) = False"
    using two_records_page_count [of alphabet_post hello_post] by (simp_all add: page_view_def)
  ultimately show ?thesis
    using two_records_first_page [of alphabet_post hello_post] by (intro conjI)
qed

text \<open>
  As the claim is written, for every requested page, it fails at page 0: the handler
  serves page 1, both records with no next page, where the records \<open>[-6, 0)\<close> are none and
  \<open>0 < ceil(2/6)\<close> asks for a next page.
\<close>

theorem page_zero_counterexample:
  "parseInt ''0'' = Some 0
   \<and> getAllPosts blog = (Inr [alphabet_post, hello_post], blog)
   \<and> public_index (Some ''0'') blog
     = (Render ''posts/index.njk'' (page_view 6 None [alphabet_post, hello_post] 1), blog)
   \<and> shown (page_view 6 None [alphabet_post, hello_post] 1) = [alphabet_post, hello_post]
   \<and> shown (page_view 6 None [alphabet_post, hello_post] 0) = []
   \<and> hasNext (page_view 6 None [alphabet_post, hello_post] 1) = False
   \<and> hasNext (page_view 6 None [alphabet_post, hello_post] 0) = True
   \<and> page_view 6 None [alphabet_post, hello_post] 1 \<noteq> page_view 6 None [alphabet_post, hello_post] 0"
proof -
  have k: "1 \<le> page_of (Some ''0'')"
    by (simp add: page_zero)
  from public_index_page [OF k blog_posts]
  have served: "public_index (Some ''0'') blog
     = (Render ''posts/index.njk'' (page_view 6 None [alphabet_post, hello_post] 1), blog)"
    by (simp only: page_zero)
  have none: "shown (page_view 6 None [alphabet_post, hello_post] 0) = []"
    by (simp add: page_view_def index_range_before_start)
  have nexts: "hasNext (page_view 6 None [alphabet_post, hello_post] 1) = False"
    "hasNext (page_view 6 None [alphabet_post, hello_post] 0) = True"
    using two_records_page_count [of alphabet_post hello_post] by (simp_all add: page_view_def)
  from nexts have "page_view 6 None [alphabet_post, hello_post] 1
      \<noteq> page_view 6 None [alphabet_post, hello_post] 0"
    by auto
  with parse_zero blog_posts served none nexts
    two_records_first_page [of alphabet_post hello_post]
  show ?thesis
    by (intro conjI)
qed

text \<open>
  A negative page is passed on as it is, and \<open>slice\<close> then counts from the end of the array:
  of seven records, page \<open>-1\<close> shows the first one, where the records \<open>[-12, -6)\<close> are none.
\<close>

lemma negative_page_counts_from_end:
  "page_of (Some ''-1'') = - 1
   \<and> slice [a, b, c, d, e, f, g] ((- 1 - 1) * 6) ((- 1 - 1) * 6 + 6) = [a]
   \<and> index_range [a, b, c, d, e, f, g] ((- 1 - 1) * 6) (- 1 * 6) = []"
  by (simp add: page_minus_one slice_def js_index_def index_range_before_start)

end
